theory Spec2Isabelle
  imports Complex_Main "HOL-Library.Log_Nat"
begin

section \<open>Data model\<close>

text \<open>
  A tensor is its shape together with its elements in row-major order.  Elements are
  exact reals: rounding of the floating-point dtypes is outside this development.
\<close>

record tensor =
  shape :: "nat list"
  data :: "real list"

definition wf_tensor :: "tensor \<Rightarrow> bool" where
  "wf_tensor t = (length (data t) = prod_list (shape t))"

type_synonym matrix = "real list list"

text \<open>The Python exceptions that the module's functions can let through.\<close>

datatype error = ImportError | IndexError | RuntimeError | ValueError | AttributeError

section \<open>External library operations used by the reference oracle\<close>

subsection \<open>\<open>scipy.linalg.hadamard\<close>\<close>

text \<open>
  \<open>hadamard(n)\<close> rejects every \<open>n\<close> that is not a power of two with a ValueError and
  otherwise runs Sylvester's construction: starting from \<open>[[1]]\<close>, the loop body
  \<open>H = vstack((hstack((H, H)), hstack((H, -H))))\<close> is run \<open>lg2\<close> times.
\<close>

definition hstack :: "matrix \<Rightarrow> matrix \<Rightarrow> matrix" where
  "hstack A B = map2 (@) A B"

definition vstack :: "matrix \<Rightarrow> matrix \<Rightarrow> matrix" where
  "vstack A B = A @ B"

definition neg :: "matrix \<Rightarrow> matrix" where
  "neg A = map (map uminus) A"

definition sylvester_step :: "matrix \<Rightarrow> matrix" where
  "sylvester_step H = vstack (hstack H H) (hstack H (neg H))"

definition scipy_hadamard :: "nat \<Rightarrow> error + matrix" where
  "scipy_hadamard n =
     (let lg2 = (if n < 1 then 0 else floorlog 2 n - 1)
      in if 2 ^ lg2 \<noteq> n then Inl ValueError
         else Inr ((sylvester_step ^^ lg2) [[1]]))"

text \<open>
  Lines 4 to 7 of the module: the import of \<open>hadamard\<close> is guarded, so loading the module
  never fails on a missing scipy; the name is bound to \<open>None\<close> instead.
\<close>

definition import_hadamard :: "bool \<Rightarrow> (nat \<Rightarrow> error + matrix) option" where
  "import_hadamard scipy_installed = (if scipy_installed then Some scipy_hadamard else None)"

subsection \<open>torch operations\<close>

text \<open>\<open>x.reshape(-1, dim)\<close>: the rows of length \<open>dim\<close> of the flat data.\<close>

function rows_of :: "nat \<Rightarrow> real list \<Rightarrow> real list list" where
  "rows_of n xs = (if n = 0 \<or> xs = [] then [] else take n xs # rows_of n (drop n xs))"
  by pat_completeness auto
termination
  by (relation "measure (\<lambda>(n, xs). length xs)") auto

declare rows_of.simps [simp del]

text \<open>
  torch infers the \<open>-1\<close> dimension from the number of elements.  With \<open>dim = 0\<close> the
  inferred size is ambiguous and with a number of elements that \<open>dim\<close> does not divide
  the shape is invalid; both raise RuntimeError.
\<close>

definition reshape_rows :: "tensor \<Rightarrow> nat \<Rightarrow> error + real list list" where
  "reshape_rows x dimx =
     (if dimx = 0 then Inl RuntimeError
      else if length (data x) mod dimx \<noteq> 0 then Inl RuntimeError
      else Inr (rows_of dimx (data x)))"

text \<open>\<open>F.pad(x, (0, p))\<close>: \<open>p\<close> zeros appended to every row.\<close>

definition pad_last :: "real list list \<Rightarrow> nat \<Rightarrow> real list list" where
  "pad_last rows p = map (\<lambda>row. row @ replicate p 0) rows"

definition dot :: "real list \<Rightarrow> real list \<Rightarrow> real" where
  "dot xs ys = sum_list (map2 (*) xs ys)"

definition mat_vec :: "matrix \<Rightarrow> real list \<Rightarrow> real list" where
  "mat_vec W row = map (\<lambda>w. dot row w) W"

text \<open>
  \<open>F.linear(x, W)\<close> is \<open>x W\<^sup>T\<close>: entry \<open>i\<close> of an output row is the row times row \<open>i\<close> of \<open>W\<close>.
  torch raises RuntimeError when the length of the rows of \<open>x\<close> is not the number of
  columns of \<open>W\<close>.
\<close>

definition linear :: "real list list \<Rightarrow> matrix \<Rightarrow> error + real list list" where
  "linear rows W =
     (if list_all (\<lambda>row. list_all (\<lambda>w. length w = length row) W) rows
      then Inr (map (mat_vec W) rows)
      else Inl RuntimeError)"

definition mul_scalar :: "real list list \<Rightarrow> real \<Rightarrow> real list list" where
  "mul_scalar rows scale = map (map (\<lambda>v. v * scale)) rows"

text \<open>\<open>out[..., :dim]\<close>\<close>

definition slice_last :: "real list list \<Rightarrow> nat \<Rightarrow> real list list" where
  "slice_last rows dimx = map (take dimx) rows"

text \<open>\<open>.reshape(*x_shape)\<close>\<close>

definition reshape_back :: "real list list \<Rightarrow> nat list \<Rightarrow> tensor" where
  "reshape_back rows x_shape = \<lparr>shape = x_shape, data = concat rows\<rparr>"

section \<open>The reference oracle \<open>hadamard_transform_ref\<close>\<close>

text \<open>
  The module-level name \<open>hadamard\<close> is the first parameter.  \<open>x.shape[-1]\<close> raises
  IndexError on a tensor without dimensions, \<open>math.log2(0)\<close> raises ValueError, and
  \<open>math.ceil(math.log2(dim))\<close> is \<open>ceillog2 dim\<close> for a positive \<open>dim\<close>.
\<close>

definition hadamard_transform_ref ::
  "(nat \<Rightarrow> error + matrix) option \<Rightarrow> tensor \<Rightarrow> real \<Rightarrow> error + tensor" where
  "hadamard_transform_ref hadamard x scale =
     (case hadamard of
        None \<Rightarrow> Inl ImportError
      | Some hadamard_fn \<Rightarrow>
          (let x_shape = shape x in
           if x_shape = [] then Inl IndexError
           else
             (let dimx = last x_shape in
              (case reshape_rows x dimx of
                 Inl e \<Rightarrow> Inl e
               | Inr x1 \<Rightarrow>
                   if dimx = 0 then Inl ValueError
                   else
                     (let log_dim = ceillog2 dimx;
                          dim_padded = 2 ^ log_dim;
                          x2 = (if dimx \<noteq> dim_padded
                                then pad_last x1 (dim_padded - dimx) else x1)
                      in (case hadamard_fn dim_padded of
                            Inl e \<Rightarrow> Inl e
                          | Inr H \<Rightarrow>
                              (case linear x2 H of
                                 Inl e \<Rightarrow> Inl e
                               | Inr out \<Rightarrow>
                                   (let out = mul_scalar out scale
                                    in Inr (reshape_back (slice_last out dimx) x_shape)))))))))"

section \<open>Vector operations used in the statements\<close>

definition vadd :: "real list \<Rightarrow> real list \<Rightarrow> real list" where
  "vadd xs ys = map2 (+) xs ys"

definition vsub :: "real list \<Rightarrow> real list \<Rightarrow> real list" where
  "vsub xs ys = map2 (-) xs ys"

definition smult :: "real \<Rightarrow> real list \<Rightarrow> real list" where
  "smult c xs = map (\<lambda>v. c * v) xs"

text \<open>The matrix that \<open>hadamard(2 ** k)\<close> returns.\<close>

definition sylvester :: "nat \<Rightarrow> matrix" where
  "sylvester k = (sylvester_step ^^ k) [[1]]"

text \<open>
  What the oracle does to one row, with \<open>k\<close> the exponent of the padded length: pad
  with zeros, multiply by the matrix, scale, keep the row's own length.
\<close>

definition ref_row :: "nat \<Rightarrow> real \<Rightarrow> real list \<Rightarrow> real list" where
  "ref_row k scale row =
     take (length row)
       (map (\<lambda>v. v * scale)
          (mat_vec (sylvester k) (row @ replicate (2 ^ k - length row) 0)))"

text \<open>The linear combination \<open>a * x + b * y\<close> of two tensors of one shape.\<close>

definition lin :: "real \<Rightarrow> real list \<Rightarrow> real \<Rightarrow> real list \<Rightarrow> real list" where
  "lin a xs b ys = map2 (\<lambda>u v. a * u + b * v) xs ys"

definition axpby :: "real \<Rightarrow> tensor \<Rightarrow> real \<Rightarrow> tensor \<Rightarrow> tensor" where
  "axpby a x b y = \<lparr>shape = shape x, data = lin a (data x) b (data y)\<rparr>"

section \<open>The autograd wrappers\<close>

text \<open>
  The extension module \<open>fast_hadamard_transform_cuda\<close> is compiled code; its five
  kernels are parameters here.  Each takes the tensor, the scale and the in-place flag;
  \<open>'t\<close> is what a kernel is given and \<open>'r\<close> what it returns.
\<close>

record ('t, 'r) fast_hadamard_transform_cuda =
  fast_hadamard_transform :: "'t \<Rightarrow> real \<Rightarrow> bool \<Rightarrow> 'r"
  fast_hadamard_transform_12N :: "'t \<Rightarrow> real \<Rightarrow> bool \<Rightarrow> 'r"
  fast_hadamard_transform_20N :: "'t \<Rightarrow> real \<Rightarrow> bool \<Rightarrow> 'r"
  fast_hadamard_transform_28N :: "'t \<Rightarrow> real \<Rightarrow> bool \<Rightarrow> 'r"
  fast_hadamard_transform_40N :: "'t \<Rightarrow> real \<Rightarrow> bool \<Rightarrow> 'r"

text \<open>
  The autograd context.  The attributes \<open>_hadamard_transform_scale\<close> and \<open>_inplace\<close>
  do not exist until \<open>forward\<close> sets them; reading a missing one raises AttributeError.
\<close>

record ctx =
  hadamard_transform_scale :: "real option"
  inplace :: "bool option"

definition new_ctx :: ctx where
  "new_ctx = \<lparr>hadamard_transform_scale = None, inplace = None\<rparr>"

text \<open>
  \<open>forward\<close> returns the output; the updated context is returned with it.  \<open>backward\<close>
  returns a Python tuple, modelled as the list of its slots, \<open>None\<close> being an absent
  gradient.
\<close>

definition HadamardTransformFn_forward ::
  "('t, 'r) fast_hadamard_transform_cuda \<Rightarrow> ctx \<Rightarrow> 't \<Rightarrow> real \<Rightarrow> bool \<Rightarrow> ctx \<times> 'r" where
  "HadamardTransformFn_forward m c x scale inpl =
     (c\<lparr>hadamard_transform_scale := Some scale, inplace := Some inpl\<rparr>,
      fast_hadamard_transform m x scale inpl)"

definition HadamardTransformFn_backward ::
  "('t, 'r) fast_hadamard_transform_cuda \<Rightarrow> ctx \<Rightarrow> 't \<Rightarrow> error + 'r option list" where
  "HadamardTransformFn_backward m c dout =
     (case hadamard_transform_scale c of
        None \<Rightarrow> Inl AttributeError
      | Some scale \<Rightarrow>
          (case inplace c of
             None \<Rightarrow> Inl AttributeError
           | Some inpl \<Rightarrow> Inr [Some (fast_hadamard_transform m dout scale inpl), None]))"

definition HadamardTransform12NFn_forward ::
  "('t, 'r) fast_hadamard_transform_cuda \<Rightarrow> ctx \<Rightarrow> 't \<Rightarrow> real \<Rightarrow> bool \<Rightarrow> ctx \<times> 'r" where
  "HadamardTransform12NFn_forward m c x scale inpl =
     (c\<lparr>hadamard_transform_scale := Some scale, inplace := Some inpl\<rparr>,
      fast_hadamard_transform_12N m x scale inpl)"

definition HadamardTransform12NFn_backward ::
  "('t, 'r) fast_hadamard_transform_cuda \<Rightarrow> ctx \<Rightarrow> 't \<Rightarrow> error + 'r option list" where
  "HadamardTransform12NFn_backward m c dout =
     (case hadamard_transform_scale c of
        None \<Rightarrow> Inl AttributeError
      | Some scale \<Rightarrow>
          (case inplace c of
             None \<Rightarrow> Inl AttributeError
           | Some inpl \<Rightarrow> Inr [Some (fast_hadamard_transform_12N m dout scale inpl), None]))"

definition HadamardTransform20NFn_forward ::
  "('t, 'r) fast_hadamard_transform_cuda \<Rightarrow> ctx \<Rightarrow> 't \<Rightarrow> real \<Rightarrow> bool \<Rightarrow> ctx \<times> 'r" where
  "HadamardTransform20NFn_forward m c x scale inpl =
     (c\<lparr>hadamard_transform_scale := Some scale, inplace := Some inpl\<rparr>,
      fast_hadamard_transform_20N m x scale inpl)"

definition HadamardTransform20NFn_backward ::
  "('t, 'r) fast_hadamard_transform_cuda \<Rightarrow> ctx \<Rightarrow> 't \<Rightarrow> error + 'r option list" where
  "HadamardTransform20NFn_backward m c dout =
     (case hadamard_transform_scale c of
        None \<Rightarrow> Inl AttributeError
      | Some scale \<Rightarrow>
          (case inplace c of
             None \<Rightarrow> Inl AttributeError
           | Some inpl \<Rightarrow> Inr [Some (fast_hadamard_transform_20N m dout scale inpl), None]))"

definition HadamardTransform28NFn_forward ::
  "('t, 'r) fast_hadamard_transform_cuda \<Rightarrow> ctx \<Rightarrow> 't \<Rightarrow> real \<Rightarrow> bool \<Rightarrow> ctx \<times> 'r" where
  "HadamardTransform28NFn_forward m c x scale inpl =
     (c\<lparr>hadamard_transform_scale := Some scale, inplace := Some inpl\<rparr>,
      fast_hadamard_transform_28N m x scale inpl)"

definition HadamardTransform28NFn_backward ::
  "('t, 'r) fast_hadamard_transform_cuda \<Rightarrow> ctx \<Rightarrow> 't \<Rightarrow> error + 'r option list" where
  "HadamardTransform28NFn_backward m c dout =
     (case hadamard_transform_scale c of
        None \<Rightarrow> Inl AttributeError
      | Some scale \<Rightarrow>
          (case inplace c of
             None \<Rightarrow> Inl AttributeError
           | Some inpl \<Rightarrow> Inr [Some (fast_hadamard_transform_28N m dout scale inpl), None]))"

definition HadamardTransform40NFn_forward ::
  "('t, 'r) fast_hadamard_transform_cuda \<Rightarrow> ctx \<Rightarrow> 't \<Rightarrow> real \<Rightarrow> bool \<Rightarrow> ctx \<times> 'r" where
  "HadamardTransform40NFn_forward m c x scale inpl =
     (c\<lparr>hadamard_transform_scale := Some scale, inplace := Some inpl\<rparr>,
      fast_hadamard_transform_40N m x scale inpl)"

definition HadamardTransform40NFn_backward ::
  "('t, 'r) fast_hadamard_transform_cuda \<Rightarrow> ctx \<Rightarrow> 't \<Rightarrow> error + 'r option list" where
  "HadamardTransform40NFn_backward m c dout =
     (case hadamard_transform_scale c of
        None \<Rightarrow> Inl AttributeError
      | Some scale \<Rightarrow>
          (case inplace c of
             None \<Rightarrow> Inl AttributeError
           | Some inpl \<Rightarrow> Inr [Some (fast_hadamard_transform_40N m dout scale inpl), None]))"

text \<open>
  \<open>hadamard_transform(x, scale, inplace)\<close> is \<open>HadamardTransformFn.apply(x, scale, inplace)\<close>:
  \<open>apply\<close> runs \<open>forward\<close> on a new context with these three inputs, and the autograd
  engine later asks \<open>backward\<close> for one gradient slot for each of them.
\<close>

datatype 't forward_input = TensorInput 't | FloatInput real | BoolInput bool

definition apply_inputs :: "'t \<Rightarrow> real \<Rightarrow> bool \<Rightarrow> 't forward_input list" where
  "apply_inputs x scale inpl = [TensorInput x, FloatInput scale, BoolInput inpl]"

definition hadamard_transform ::
  "('t, 'r) fast_hadamard_transform_cuda \<Rightarrow> 't \<Rightarrow> real \<Rightarrow> bool \<Rightarrow> 'r" where
  "hadamard_transform m x scale inpl = snd (HadamardTransformFn_forward m new_ctx x scale inpl)"

definition hadamard_transform_12N ::
  "('t, 'r) fast_hadamard_transform_cuda \<Rightarrow> 't \<Rightarrow> real \<Rightarrow> bool \<Rightarrow> 'r" where
  "hadamard_transform_12N m x scale inpl =
     snd (HadamardTransform12NFn_forward m new_ctx x scale inpl)"

definition hadamard_transform_20N ::
  "('t, 'r) fast_hadamard_transform_cuda \<Rightarrow> 't \<Rightarrow> real \<Rightarrow> bool \<Rightarrow> 'r" where
  "hadamard_transform_20N m x scale inpl =
     snd (HadamardTransform20NFn_forward m new_ctx x scale inpl)"

definition hadamard_transform_28N ::
  "('t, 'r) fast_hadamard_transform_cuda \<Rightarrow> 't \<Rightarrow> real \<Rightarrow> bool \<Rightarrow> 'r" where
  "hadamard_transform_28N m x scale inpl =
     snd (HadamardTransform28NFn_forward m new_ctx x scale inpl)"

definition hadamard_transform_40N ::
  "('t, 'r) fast_hadamard_transform_cuda \<Rightarrow> 't \<Rightarrow> real \<Rightarrow> bool \<Rightarrow> 'r" where
  "hadamard_transform_40N m x scale inpl =
     snd (HadamardTransform40NFn_forward m new_ctx x scale inpl)"

text \<open>
  The one operation that the five wrapper classes are instances of, with the kernel as
  a parameter.
\<close>

definition generic_forward ::
  "('t \<Rightarrow> real \<Rightarrow> bool \<Rightarrow> 'r) \<Rightarrow> ctx \<Rightarrow> 't \<Rightarrow> real \<Rightarrow> bool \<Rightarrow> ctx \<times> 'r" where
  "generic_forward kern c x scale inpl =
     (c\<lparr>hadamard_transform_scale := Some scale, inplace := Some inpl\<rparr>, kern x scale inpl)"

definition generic_backward ::
  "('t \<Rightarrow> real \<Rightarrow> bool \<Rightarrow> 'r) \<Rightarrow> ctx \<Rightarrow> 't \<Rightarrow> error + 'r option list" where
  "generic_backward kern c dout =
     (case (hadamard_transform_scale c, inplace c) of
        (Some scale, Some inpl) \<Rightarrow> Inr [Some (kern dout scale inpl), None]
      | _ \<Rightarrow> Inl AttributeError)"

section \<open>The fast path, from the specification\<close>

text \<open>
  The kernels behind \<open>fast_hadamard_transform_cuda\<close> are compiled code that is not part
  of the Python sources.  The definitions of this section follow the specification's
  component design instead.
\<close>

text \<open>
  Modelled from the spec: the typed failures of the error model that these definitions
  raise, invalid-size and in-place-incompatible.
\<close>

datatype spec_error = InvalidSize | InPlaceIncompatible

text \<open>
  Modelled from the spec: the Size Resolver of the missing kernel (section 4.1).
  \<open>find_k n base len k\<close> tries the exponents \<open>k, k + 1, \<dots>, k + n\<close> in turn and
  returns the first whose \<open>base * 2 ^ k\<close> reaches \<open>len\<close>; \<open>resolve\<close> starts it at 0 with
  the implementation-defined maximum \<open>k_max\<close> and fails with the invalid-size error on
  length 0 or when no exponent up to \<open>k_max\<close> is enough.
\<close>

fun find_k :: "nat \<Rightarrow> nat \<Rightarrow> nat \<Rightarrow> nat \<Rightarrow> nat option" where
  "find_k 0 base len k = (if len \<le> base * 2 ^ k then Some k else None)"
| "find_k (Suc n) base len k =
     (if len \<le> base * 2 ^ k then Some k else find_k n base len (Suc k))"

text \<open>
  Modelled from the spec: the resolved pair \<open>(padded_length, pad_amount)\<close> of section 4.1,
  or the invalid-size error for an empty row or a row longer than \<open>base * 2 ^ k_max\<close>.
\<close>

definition resolve :: "nat \<Rightarrow> nat \<Rightarrow> nat \<Rightarrow> spec_error + nat \<times> nat" where
  "resolve k_max len base =
     (if len = 0 then Inl InvalidSize
      else (case find_k k_max base len 0 of
              None \<Rightarrow> Inl InvalidSize
            | Some k \<Rightarrow> Inr (base * 2 ^ k, base * 2 ^ k - len)))"

text \<open>
  Modelled from the spec: the Butterfly Core of the missing kernel (section 4.2).  A
  stage with half block size \<open>h\<close> cuts the buffer into blocks of size \<open>2 * h\<close> and
  replaces, in each block, the pair \<open>(a, b)\<close> at positions \<open>i\<close> and \<open>i + h\<close> by
  \<open>(a + b, a - b)\<close>; stage \<open>s\<close> has \<open>h = 2 ^ s\<close>, for \<open>s\<close> from 0 to \<open>k - 1\<close>.
\<close>

definition butterfly_block :: "nat \<Rightarrow> real list \<Rightarrow> real list" where
  "butterfly_block h blk = vadd (take h blk) (drop h blk) @ vsub (take h blk) (drop h blk)"

text \<open>
  Modelled from the spec: one stage of the Butterfly Core (section 4.2) over all blocks
  of the buffer.
\<close>

function butterfly_stage :: "nat \<Rightarrow> real list \<Rightarrow> real list" where
  "butterfly_stage h buf =
     (if h = 0 \<or> buf = [] then []
      else butterfly_block h (take (2 * h) buf) @ butterfly_stage h (drop (2 * h) buf))"
  by pat_completeness auto
termination
  by (relation "measure (\<lambda>(h, buf). length buf)") auto

declare butterfly_stage.simps [simp del]

text \<open>
  Modelled from the spec: \<open>transform_pow2\<close> of section 4.2, the stages \<open>s = 0, \<dots>, k - 1\<close> in
  sequence.
\<close>

definition transform_pow2 :: "real list \<Rightarrow> real list" where
  "transform_pow2 buf =
     fold (\<lambda>s b. butterfly_stage (2 ^ s) b) [0..<ceillog2 (length buf)] buf"

text \<open>
  Modelled from the spec: the Base-Factor Kernel of the missing kernel (section 4.3).
  The constant matrices for the bases 12, 20, 28 and 40 are not given; \<open>M\<close> maps a
  base to its matrix.  Base 1 is the identity.
\<close>

definition transform_base :: "(nat \<Rightarrow> matrix) \<Rightarrow> nat \<Rightarrow> real list \<Rightarrow> real list" where
  "transform_base M base buf = (if base = 1 then buf else mat_vec (M base) buf)"

text \<open>
  Modelled from the spec: what section 4.3 states about such a matrix: it is square of size \<open>base\<close>, symmetric,
  and its product with itself is \<open>base\<close> times the identity.
\<close>

definition base_matrix_ok :: "nat \<Rightarrow> matrix \<Rightarrow> bool" where
  "base_matrix_ok base A =
     (length A = base \<and> list_all (\<lambda>r. length r = base) A \<and>
      list_all (\<lambda>i. list_all (\<lambda>j. A ! i ! j = A ! j ! i) [0..<base]) [0..<base] \<and>
      list_all (\<lambda>i. list_all (\<lambda>j. dot (A ! i) (A ! j) = (if i = j then real base else 0))
                  [0..<base]) [0..<base])"

text \<open>
  Modelled from the spec: the Variant Composer of the missing kernel (section 4.4), for
  a buffer of length \<open>base * n\<close> with \<open>n\<close> a power of two.  Lane \<open>j\<close> holds the elements
  \<open>j, j + base, j + 2 * base, \<dots>\<close>; (a) every lane goes through the butterfly, (b) every
  contiguous block of length \<open>base\<close> goes through the base kernel, and step (b) is
  skipped for base 1.
\<close>

definition lane :: "nat \<Rightarrow> nat \<Rightarrow> real list \<Rightarrow> nat \<Rightarrow> real list" where
  "lane base n buf j = map (\<lambda>i. buf ! (i * base + j)) [0..<n]"

text \<open>
  Modelled from the spec: the composer of section 4.4 on the lanes and blocks of a
  buffer.
\<close>

definition transform :: "(nat \<Rightarrow> matrix) \<Rightarrow> nat \<Rightarrow> real list \<Rightarrow> real list" where
  "transform M base buf =
     (let n = length buf div base;
          lanes = map (\<lambda>j. transform_pow2 (lane base n buf j)) [0..<base];
          blocks = map (\<lambda>i. map (\<lambda>j. lanes ! j ! i) [0..<base]) [0..<n]
      in concat (if base = 1 then blocks else map (transform_base M base) blocks))"

text \<open>
  Modelled from the spec: the Padding/Truncation Shim and top-level operation \<open>apply\<close>
  of the missing kernel (section 4.5), on every row of a tensor: resolve the padded
  length, extend the row with zeros, run the composer, multiply by the scale, keep the
  first \<open>L\<close> elements.  A row buffer holds exactly its \<open>L\<close> elements, so an in-place
  call that needs padding is rejected as in-place-incompatible.
\<close>

definition apply_spec ::
  "nat \<Rightarrow> (nat \<Rightarrow> matrix) \<Rightarrow> nat \<Rightarrow> tensor \<Rightarrow> real \<Rightarrow> bool \<Rightarrow> spec_error + tensor" where
  "apply_spec k_max M base x scale inpl =
     (if shape x = [] then Inl InvalidSize
      else
        (let L = last (shape x) in
         (case resolve k_max L base of
            Inl e \<Rightarrow> Inl e
          | Inr (padded_length, pad_amount) \<Rightarrow>
              if inpl \<and> 0 < pad_amount then Inl InPlaceIncompatible
              else Inr \<lparr>shape = shape x,
                        data = concat (map (\<lambda>row. take L (map (\<lambda>v. v * scale)
                                              (transform M base (row @ replicate pad_amount 0))))
                                         (rows_of L (data x)))\<rparr>)))"

text \<open>
  Modelled from the spec: the extension module \<open>fast_hadamard_transform_cuda\<close>, with the
  five kernels as \<open>apply\<close> at the base factors 1, 12, 20, 28 and 40.
\<close>

definition spec_cuda ::
  "nat \<Rightarrow> (nat \<Rightarrow> matrix) \<Rightarrow> (tensor, spec_error + tensor) fast_hadamard_transform_cuda" where
  "spec_cuda k_max M =
     \<lparr>fast_hadamard_transform = apply_spec k_max M 1,
      fast_hadamard_transform_12N = apply_spec k_max M 12,
      fast_hadamard_transform_20N = apply_spec k_max M 20,
      fast_hadamard_transform_28N = apply_spec k_max M 28,
      fast_hadamard_transform_40N = apply_spec k_max M 40\<rparr>"

text \<open>
  Modelled from the spec: an instance of the constant base matrix of order 12.  The spec
  fixes no entries, only that the matrix is symmetric with \<open>M\<^sub>1\<^sub>2 \<cdot> M\<^sub>1\<^sub>2 = 12 \<cdot> I\<close>; this is
  the Paley matrix of the second kind for \<open>q = 5\<close>, showing that the conditions of
  \<open>base_matrix_ok\<close> can be met.
\<close>

definition paley_12 :: matrix where
  "paley_12 =
     [[1, - 1, 1, 1, 1, 1, 1, 1, 1, 1, 1, 1],
      [- 1, - 1, 1, - 1, 1, - 1, 1, - 1, 1, - 1, 1, - 1],
      [1, 1, 1, - 1, 1, 1, - 1, - 1, - 1, - 1, 1, 1],
      [1, - 1, - 1, - 1, 1, - 1, - 1, 1, - 1, 1, 1, - 1],
      [1, 1, 1, 1, 1, - 1, 1, 1, - 1, - 1, - 1, - 1],
      [1, - 1, 1, - 1, - 1, - 1, 1, - 1, - 1, 1, - 1, 1],
      [1, 1, - 1, - 1, 1, 1, 1, - 1, 1, 1, - 1, - 1],
      [1, - 1, - 1, 1, 1, - 1, - 1, - 1, 1, - 1, - 1, 1],
      [1, 1, - 1, - 1, - 1, - 1, 1, 1, 1, - 1, 1, 1],
      [1, - 1, - 1, 1, - 1, 1, 1, - 1, - 1, - 1, 1, - 1],
      [1, 1, 1, 1, - 1, - 1, - 1, - 1, 1, 1, 1, - 1],
      [1, - 1, 1, - 1, - 1, 1, - 1, 1, 1, - 1, - 1, - 1]]"

section \<open>The reference oracle over an explicit store\<close>

text \<open>
  Tensor storage.  A store maps every address to the contents of one storage; the
  addresses below \<open>next_addr\<close> are the allocated ones.  A tensor handle names its
  storage, its shape and the distance in the storage between two consecutive rows of the
  last dimension, so that a handle can be a view of a wider storage (as \<open>out[..., :dim]\<close>
  is).
\<close>

type_synonym addr = nat

record store =
  cells :: "addr \<Rightarrow> real list"
  next_addr :: addr

record tref =
  storage :: addr
  tshape :: "nat list"
  row_stride :: nat

definition alloc :: "real list \<Rightarrow> store \<Rightarrow> addr \<times> store" where
  "alloc xs st =
     (next_addr st, \<lparr>cells = (cells st)(next_addr st := xs), next_addr = Suc (next_addr st)\<rparr>)"

definition numel :: "tref \<Rightarrow> nat" where
  "numel t = prod_list (tshape t)"

definition rows_at :: "store \<Rightarrow> tref \<Rightarrow> real list list" where
  "rows_at st t =
     map (\<lambda>r. take (last (tshape t)) (drop (r * row_stride t) (cells st (storage t))))
       [0..<prod_list (butlast (tshape t))]"

text \<open>The value of a tensor handle: what the program reads through it.\<close>

definition read :: "store \<Rightarrow> tref \<Rightarrow> tensor" where
  "read st t = \<lparr>shape = tshape t, data = concat (rows_at st t)\<rparr>"

text \<open>
  \<open>x.reshape(-1, dim)\<close> on a handle of shape \<open>(..., dim)\<close>: the leading dimensions are
  merged, which torch does as a view of the same storage.
\<close>

definition reshape_rows_view :: "tref \<Rightarrow> nat \<Rightarrow> error + tref" where
  "reshape_rows_view t dimx =
     (if dimx = 0 \<or> numel t mod dimx \<noteq> 0 then Inl RuntimeError
      else Inr \<lparr>storage = storage t, tshape = [numel t div dimx, dimx],
                row_stride = row_stride t\<rparr>)"

text \<open>\<open>F.pad(x, (0, extra))\<close> writes the padded rows to a new storage.\<close>

definition pad_alloc :: "store \<Rightarrow> tref \<Rightarrow> nat \<Rightarrow> tref \<times> store" where
  "pad_alloc st t extra =
     (let (a, st') = alloc (concat (map (\<lambda>row. row @ replicate extra 0) (rows_at st t))) st
      in (\<lparr>storage = a, tshape = butlast (tshape t) @ [last (tshape t) + extra],
           row_stride = last (tshape t) + extra\<rparr>, st'))"

text \<open>\<open>torch.tensor(hadamard(dim_padded), ...)\<close> copies the matrix to a new storage.\<close>

definition tensor_of_matrix :: "store \<Rightarrow> matrix \<Rightarrow> tref \<times> store" where
  "tensor_of_matrix st W =
     (let (a, st') = alloc (concat W) st
      in (\<lparr>storage = a, tshape = [length W, length W], row_stride = length W\<rparr>, st'))"

text \<open>
  \<open>F.linear(x, w)\<close> raises RuntimeError when the last dimension of \<open>x\<close> is not the number
  of columns of \<open>w\<close>, and otherwise writes the products of the rows to a new storage.
\<close>

definition linear_alloc :: "store \<Rightarrow> tref \<Rightarrow> tref \<Rightarrow> (error + tref) \<times> store" where
  "linear_alloc st t w =
     (if last (tshape t) \<noteq> last (tshape w) then (Inl RuntimeError, st)
      else
        (let (a, st') = alloc (concat (map (mat_vec (rows_at st w)) (rows_at st t))) st
         in (Inr \<lparr>storage = a, tshape = butlast (tshape t) @ [hd (tshape w)],
                  row_stride = hd (tshape w)\<rparr>, st')))"

text \<open>\<open>out * scale\<close> writes the scaled rows to a new storage.\<close>

definition mul_scalar_alloc :: "store \<Rightarrow> tref \<Rightarrow> real \<Rightarrow> tref \<times> store" where
  "mul_scalar_alloc st t c =
     (let (a, st') = alloc (concat (map (map (\<lambda>v. v * c)) (rows_at st t))) st
      in (\<lparr>storage = a, tshape = tshape t, row_stride = last (tshape t)\<rparr>, st'))"

text \<open>\<open>out[..., :dim]\<close> is a view: same storage, same row distance, shorter rows.\<close>

definition slice_last_view :: "tref \<Rightarrow> nat \<Rightarrow> tref" where
  "slice_last_view t dimx =
     t\<lparr>tshape := butlast (tshape t) @ [min dimx (last (tshape t))]\<rparr>"

text \<open>
  \<open>.reshape(*x_shape)\<close> from \<open>(rows, dim)\<close> to \<open>(..., dim)\<close> only splits the leading
  dimension, which torch does as a view.
\<close>

definition reshape_back_view :: "tref \<Rightarrow> nat list \<Rightarrow> error + tref" where
  "reshape_back_view t x_shape =
     (if prod_list x_shape \<noteq> numel t then Inl RuntimeError
      else Inr (t\<lparr>tshape := x_shape\<rparr>))"

text \<open>
  \<open>hadamard_transform_ref\<close> once more, statement by statement, now threading the store:
  every torch call is either a view of its argument or an allocation.
\<close>

definition hadamard_transform_ref_store ::
  "(nat \<Rightarrow> error + matrix) option \<Rightarrow> store \<Rightarrow> tref \<Rightarrow> real \<Rightarrow> (error + tref) \<times> store" where
  "hadamard_transform_ref_store hadamard_fn st x scale =
     (case hadamard_fn of
        None \<Rightarrow> (Inl ImportError, st)
      | Some h \<Rightarrow>
          (if tshape x = [] then (Inl IndexError, st)
           else
             (let x_shape = tshape x; dimx = last x_shape in
              (case reshape_rows_view x dimx of
                 Inl e \<Rightarrow> (Inl e, st)
               | Inr x1 \<Rightarrow>
                   (if dimx = 0 then (Inl ValueError, st)
                    else
                      (let dim_padded = 2 ^ ceillog2 dimx;
                           (x2, st1) = (if dimx \<noteq> dim_padded
                                        then pad_alloc st x1 (dim_padded - dimx)
                                        else (x1, st))
                       in (case h dim_padded of
                             Inl e \<Rightarrow> (Inl e, st1)
                           | Inr W \<Rightarrow>
                               (let (w, st2) = tensor_of_matrix st1 W;
                                    (res, st3) = linear_alloc st2 x2 w
                                in (case res of
                                      Inl e \<Rightarrow> (Inl e, st3)
                                    | Inr out \<Rightarrow>
                                        (let (out2, st4) = mul_scalar_alloc st3 out scale
                                         in (case reshape_back_view (slice_last_view out2 dimx)
                                                    x_shape of
                                               Inl e \<Rightarrow> (Inl e, st4)
                                             | Inr r \<Rightarrow> (Inr r, st4))))))))))))"

text \<open>
  One store extends another when nothing allocated in the first has changed in the
  second.
\<close>

definition frame :: "store \<Rightarrow> store \<Rightarrow> bool" where
  "frame st st' =
     (next_addr st \<le> next_addr st' \<and> (\<forall>a<next_addr st. cells st' a = cells st a))"

text \<open>
  The five public functions, each with the base factor its docstring names
  (\<open>dim = 12 * power of 2\<close> and so on; the plain function has base factor 1).
\<close>

definition variants ::
  "((('t, 'r) fast_hadamard_transform_cuda \<Rightarrow> 't \<Rightarrow> real \<Rightarrow> bool \<Rightarrow> 'r) \<times> nat) list" where
  "variants =
     [(hadamard_transform, 1), (hadamard_transform_12N, 12), (hadamard_transform_20N, 20),
      (hadamard_transform_28N, 28), (hadamard_transform_40N, 40)]"

section \<open>The fast path over the store, from the specification\<close>

text \<open>
  Modelled from the spec: the in-place discipline of the missing kernel (sections 4.2
  and 4.5).  A row written through a handle replaces the elements at its position in the
  storage; everything else in the storage stays.
\<close>

definition write_row :: "real list \<Rightarrow> nat \<Rightarrow> real list \<Rightarrow> real list" where
  "write_row cs off row = take off cs @ row @ drop (off + length row) cs"

text \<open>
  Modelled from the spec: all rows written through a handle, row \<open>i\<close> at its position
  \<open>i * row_stride\<close> in the storage of the handle.
\<close>

definition write_rows :: "store \<Rightarrow> tref \<Rightarrow> real list list \<Rightarrow> store" where
  "write_rows st t rows =
     st\<lparr>cells := (cells st)
           (storage t := fold (\<lambda>(i, row) cs. write_row cs (i * row_stride t) row)
                           (zip [0..<length rows] rows) (cells st (storage t)))\<rparr>"

text \<open>
  Modelled from the spec: the top-level operation \<open>apply\<close> of the missing kernel with its
  storage (section 4.5 and the shared-resource policy of section 5).  In place, the
  transformed rows are written over the rows of the input and the result is the input
  handle; a call that needs padding is rejected.  Out of place, a fresh buffer sized to
  the padded length receives the padded rows, the transformed rows are written into it,
  and the result is the view of its first \<open>L\<close> columns.
\<close>

definition apply_spec_store ::
  "nat \<Rightarrow> (nat \<Rightarrow> matrix) \<Rightarrow> nat \<Rightarrow> store \<Rightarrow> tref \<Rightarrow> real \<Rightarrow> bool \<Rightarrow>
   (spec_error + tref) \<times> store" where
  "apply_spec_store k_max M base st x scale inpl =
     (if tshape x = [] then (Inl InvalidSize, st)
      else
        (let L = last (tshape x) in
         (case resolve k_max L base of
            Inl e \<Rightarrow> (Inl e, st)
          | Inr (padded_length, pad_amount) \<Rightarrow>
              if inpl then
                (if 0 < pad_amount then (Inl InPlaceIncompatible, st)
                 else (Inr x,
                       write_rows st x
                         (map (\<lambda>row. take L (map (\<lambda>v. v * scale)
                                 (transform M base (row @ replicate pad_amount 0))))
                            (rows_at st x))))
              else
                (let (a, st1) = alloc (concat (map (\<lambda>row. row @ replicate pad_amount 0)
                                                  (rows_at st x))) st;
                     buf = \<lparr>storage = a, tshape = butlast (tshape x) @ [padded_length],
                            row_stride = padded_length\<rparr>;
                     st2 = write_rows st1 buf
                             (map (\<lambda>row. map (\<lambda>v. v * scale) (transform M base row))
                                (rows_at st1 buf))
                 in (Inr \<lparr>storage = a, tshape = tshape x, row_stride = padded_length\<rparr>,
                     st2)))))"

text \<open>
  Modelled from the spec: the extension module \<open>fast_hadamard_transform_cuda\<close> over the
  store, with the five kernels as \<open>apply\<close> at the base factors 1, 12, 20, 28 and 40.
\<close>

definition spec_cuda_store ::
  "nat \<Rightarrow> (nat \<Rightarrow> matrix) \<Rightarrow>
   (store \<times> tref, (spec_error + tref) \<times> store) fast_hadamard_transform_cuda" where
  "spec_cuda_store k_max M =
     \<lparr>fast_hadamard_transform = (\<lambda>(st, x). apply_spec_store k_max M 1 st x),
      fast_hadamard_transform_12N = (\<lambda>(st, x). apply_spec_store k_max M 12 st x),
      fast_hadamard_transform_20N = (\<lambda>(st, x). apply_spec_store k_max M 20 st x),
      fast_hadamard_transform_28N = (\<lambda>(st, x). apply_spec_store k_max M 28 st x),
      fast_hadamard_transform_40N = (\<lambda>(st, x). apply_spec_store k_max M 40 st x)\<rparr>"

section \<open>Facts about the library operations\<close>

lemma ceillog2_is_ceiling_log2:
  "0 < dimx \<Longrightarrow> ceillog2 dimx = nat \<lceil>log 2 (real dimx)\<rceil>"
  by (simp add: ceillog2_def)

lemma scipy_hadamard_power [simp]:
  "scipy_hadamard (2 ^ k) = Inr (sylvester k)"
proof -
  have "floorlog 2 (1 * 2 ^ k) = floorlog 2 1 + k"
    by (rule floorlog_power) simp_all
  moreover have "floorlog 2 1 = 1"
    by (simp add: floorlog_def)
  ultimately have "floorlog 2 (2 ^ k) - 1 = k"
    by simp
  then show ?thesis
    by (simp add: scipy_hadamard_def sylvester_def)
qed

lemma rows_of_Nil [simp]: "rows_of n [] = []"
  by (simp add: rows_of.simps)

lemma rows_of_singletons: "rows_of (Suc 0) xs = map (\<lambda>v. [v]) xs"
proof (induction xs)
  case Nil
  show ?case by simp
next
  case (Cons v vs)
  then show ?case
    by (simp add: rows_of.simps [of "Suc 0" "v # vs"])
qed

section \<open>Sylvester matrices\<close>

lemma sylvester_0 [simp]: "sylvester 0 = [[1]]"
  by (simp add: sylvester_def)

lemma sylvester_Suc: "sylvester (Suc k) = sylvester_step (sylvester k)"
  by (simp add: sylvester_def)

lemma sylvester_step_alt:
  "sylvester_step A = map (\<lambda>r. r @ r) A @ map (\<lambda>r. r @ map uminus r) A"
  by (simp add: sylvester_step_def vstack_def hstack_def neg_def zip_map2 zip_same_conv_map
      map_zip_map2)

lemma dot_append:
  "length xs = length ys \<Longrightarrow> dot (xs @ xs') (ys @ ys') = dot xs ys + dot xs' ys'"
  by (simp add: dot_def)

lemma dot_uminus_right: "dot xs (map uminus ys) = - dot xs ys"
  unfolding dot_def
  by (induction xs ys rule: list_induct2') simp_all

lemma length_sylvester [simp]: "length (sylvester k) = 2 ^ k"
  by (induction k) (simp_all add: sylvester_Suc sylvester_step_alt)

lemma length_row_sylvester: "r \<in> set (sylvester k) \<Longrightarrow> length r = 2 ^ k"
  by (induction k arbitrary: r) (auto simp: sylvester_Suc sylvester_step_alt)

lemma mat_vec_sylvester_step:
  assumes "\<And>r. r \<in> set A \<Longrightarrow> length r = length x1"
  shows "mat_vec (sylvester_step A) (x1 @ x2) =
         vadd (mat_vec A x1) (mat_vec A x2) @ vsub (mat_vec A x1) (mat_vec A x2)"
  using assms
  by (simp add: mat_vec_def sylvester_step_alt vadd_def vsub_def dot_append
      dot_uminus_right map2_map_map cong: map_cong)


lemma dot_vadd_left:
  "length xs = length ys \<Longrightarrow> dot (vadd xs ys) w = dot xs w + dot ys w"
  unfolding dot_def vadd_def
proof (induction xs ys arbitrary: w rule: list_induct2)
  case Nil
  show ?case by simp
next
  case (Cons x xs y ys)
  then show ?case by (cases w) (simp_all add: algebra_simps)
qed

lemma dot_vsub_left:
  "length xs = length ys \<Longrightarrow> dot (vsub xs ys) w = dot xs w - dot ys w"
  unfolding dot_def vsub_def
proof (induction xs ys arbitrary: w rule: list_induct2)
  case Nil
  show ?case by simp
next
  case (Cons x xs y ys)
  then show ?case by (cases w) (simp_all add: algebra_simps)
qed

lemma dot_smult_left: "dot (smult c xs) w = c * dot xs w"
  unfolding dot_def smult_def
proof (induction xs arbitrary: w)
  case Nil
  show ?case by simp
next
  case (Cons x xs)
  then show ?case by (cases w) (simp_all add: algebra_simps)
qed

lemma length_mat_vec [simp]: "length (mat_vec W x) = length W"
  by (simp add: mat_vec_def)

lemma length_vadd [simp]: "length (vadd xs ys) = min (length xs) (length ys)"
  by (simp add: vadd_def)

lemma length_vsub [simp]: "length (vsub xs ys) = min (length xs) (length ys)"
  by (simp add: vsub_def)

lemma length_smult [simp]: "length (smult c xs) = length xs"
  by (simp add: smult_def)

lemma vadd_map: "vadd (map f W) (map g W) = map (\<lambda>w. f w + g w) W"
  by (simp add: vadd_def map2_map_map)

lemma vsub_map: "vsub (map f W) (map g W) = map (\<lambda>w. f w - g w) W"
  by (simp add: vsub_def map2_map_map)

lemma smult_map: "smult c (map f W) = map (\<lambda>w. c * f w) W"
  by (simp add: smult_def)

lemma mat_vec_vadd:
  "length xs = length ys \<Longrightarrow> mat_vec W (vadd xs ys) = vadd (mat_vec W xs) (mat_vec W ys)"
  by (simp add: mat_vec_def dot_vadd_left vadd_map)

lemma mat_vec_vsub:
  "length xs = length ys \<Longrightarrow> mat_vec W (vsub xs ys) = vsub (mat_vec W xs) (mat_vec W ys)"
  by (simp add: mat_vec_def dot_vsub_left vsub_map)

lemma mat_vec_smult: "mat_vec W (smult c xs) = smult c (mat_vec W xs)"
  by (simp add: mat_vec_def dot_smult_left smult_map)

lemma vadd_vadd_vsub:
  "length a = length b \<Longrightarrow> vadd (vadd a b) (vsub a b) = smult 2 a"
  unfolding vadd_def vsub_def smult_def
  by (induction a b rule: list_induct2) simp_all

lemma vsub_vadd_vsub:
  "length a = length b \<Longrightarrow> vsub (vadd a b) (vsub a b) = smult 2 b"
  unfolding vadd_def vsub_def smult_def
  by (induction a b rule: list_induct2) simp_all

lemma smult_smult: "smult c (smult d xs) = smult (c * d) xs"
  by (simp add: smult_def)

lemma smult_append: "smult c (xs @ ys) = smult c xs @ smult c ys"
  by (simp add: smult_def)

lemma sylvester_involution:
  "length x = 2 ^ k \<Longrightarrow> mat_vec (sylvester k) (mat_vec (sylvester k) x) = smult (2 ^ k) x"
proof (induction k arbitrary: x)
  case 0
  then obtain v where "x = [v]"
    by (cases x) simp_all
  then show ?case
    by (simp add: mat_vec_def dot_def smult_def)
next
  case (Suc k)
  define x1 where "x1 = take (2 ^ k) x"
  define x2 where "x2 = drop (2 ^ k) x"
  have x: "x = x1 @ x2" and l1: "length x1 = 2 ^ k" and l2: "length x2 = 2 ^ k"
    using Suc.prems by (simp_all add: x1_def x2_def)
  define a where "a = mat_vec (sylvester k) x1"
  define b where "b = mat_vec (sylvester k) x2"
  have la: "length a = 2 ^ k" and lb: "length b = 2 ^ k"
    by (simp_all add: a_def b_def)
  have rows: "\<And>r. r \<in> set (sylvester k) \<Longrightarrow> length r = 2 ^ k"
    by (rule length_row_sylvester)
  have first: "mat_vec (sylvester (Suc k)) x = vadd a b @ vsub a b"
    unfolding x sylvester_Suc a_def b_def
    by (rule mat_vec_sylvester_step) (simp add: rows l1)
  have "mat_vec (sylvester (Suc k)) (vadd a b @ vsub a b) =
        vadd (mat_vec (sylvester k) (vadd a b)) (mat_vec (sylvester k) (vsub a b)) @
        vsub (mat_vec (sylvester k) (vadd a b)) (mat_vec (sylvester k) (vsub a b))"
    unfolding sylvester_Suc
    by (rule mat_vec_sylvester_step) (simp add: rows la lb)
  also have "\<dots> = smult 2 (mat_vec (sylvester k) a) @ smult 2 (mat_vec (sylvester k) b)"
    by (simp add: mat_vec_vadd mat_vec_vsub la lb vadd_vadd_vsub vsub_vadd_vsub)
  also have "\<dots> = smult 2 (smult (2 ^ k) x1) @ smult 2 (smult (2 ^ k) x2)"
    by (simp add: a_def b_def Suc.IH l1 l2)
  also have "\<dots> = smult (2 ^ Suc k) x"
    by (simp add: x smult_smult smult_append)
  finally show ?case
    by (simp add: first)
qed

section \<open>Missing dependency\<close>

text \<open>
  Claim C6.  When scipy's \<open>hadamard\<close> could not be imported, loading the module still
  succeeds with the name bound to \<open>None\<close>, and every call of the reference oracle
  raises ImportError whatever the tensor and the scale are, hence before anything is
  read from or computed on the input.
\<close>

theorem ref_missing_dependency:
  "import_hadamard False = None \<and>
   hadamard_transform_ref (import_hadamard False) x scale = Inl ImportError"
  by (simp add: import_hadamard_def hadamard_transform_ref_def)

section \<open>Rows of a tensor\<close>

lemma rows_of_Cons:
  "0 < n \<Longrightarrow> xs \<noteq> [] \<Longrightarrow> rows_of n xs = take n xs # rows_of n (drop n xs)"
  by (subst rows_of.simps) simp

lemma concat_rows_of: "0 < n \<Longrightarrow> concat (rows_of n xs) = xs"
proof (induction n xs rule: rows_of.induct)
  case (1 n xs)
  show ?case
  proof (cases "xs = []")
    case True
    then show ?thesis by simp
  next
    case False
    with 1 show ?thesis
      by (simp add: rows_of_Cons)
  qed
qed

lemma length_rows_of_row:
  "0 < n \<Longrightarrow> length xs mod n = 0 \<Longrightarrow> r \<in> set (rows_of n xs) \<Longrightarrow> length r = n"
proof (induction n xs rule: rows_of.induct)
  case (1 n xs)
  show ?case
  proof (cases "xs = []")
    case True
    with 1 show ?thesis by simp
  next
    case False
    have len: "n \<le> length xs"
      using False "1.prems"(1,2) by (metis length_0_conv mod_less not_le)
    have "(length xs - n) mod n = 0"
      using "1.prems"(2) len by (simp add: mod_eq_0_iff_dvd)
    with 1 False len show ?thesis
      by (auto simp: rows_of_Cons)
  qed
qed

lemma rows_of_concat:
  "0 < n \<Longrightarrow> (\<And>r. r \<in> set rs \<Longrightarrow> length r = n) \<Longrightarrow> rows_of n (concat rs) = rs"
proof (induction rs)
  case Nil
  show ?case by simp
next
  case (Cons r rs)
  have lr: "length r = n"
    using Cons.prems(2) by simp
  have "rows_of n (concat rs) = rs"
    using Cons.IH Cons.prems by simp
  moreover have "r @ concat rs \<noteq> []"
    using lr Cons.prems(1) by auto
  ultimately show ?case
    using lr Cons.prems(1) by (simp add: rows_of_Cons [of n "r @ concat rs"])
qed

lemma wf_tensor_mod:
  "wf_tensor x \<Longrightarrow> shape x \<noteq> [] \<Longrightarrow> length (data x) mod last (shape x) = 0"
proof -
  assume wf: "wf_tensor x" and ne: "shape x \<noteq> []"
  have "prod_list (shape x) = prod_list (butlast (shape x)) * last (shape x)"
    using ne by (metis append_butlast_last_id prod_list.append prod_list.Cons prod_list.Nil
        mult.right_neutral)
  then show ?thesis
    using wf by (simp add: wf_tensor_def)
qed

section \<open>The oracle on well-formed input\<close>

lemma pad_last_0 [simp]: "pad_last rows 0 = rows"
  by (simp add: pad_last_def)

lemma linear_padded_rows:
  assumes "0 < d" and "length xs mod d = 0" and "d \<le> 2 ^ k"
  shows "linear (pad_last (rows_of d xs) (2 ^ k - d)) (sylvester k) =
         Inr (map (mat_vec (sylvester k)) (pad_last (rows_of d xs) (2 ^ k - d)))"
proof -
  have "length w = length (r @ replicate (2 ^ k - d) 0)"
    if "r \<in> set (rows_of d xs)" and "w \<in> set (sylvester k)" for r w
    using length_rows_of_row [OF assms(1,2) that(1)] length_row_sylvester [OF that(2)] assms(3)
    by simp
  then show ?thesis
    by (simp add: linear_def pad_last_def list_all_iff)
qed

lemma ref_rows:
  assumes "0 < d" and "length xs mod d = 0"
  shows "slice_last (mul_scalar (map (mat_vec (sylvester k)) (pad_last (rows_of d xs) (2 ^ k - d)))
           scale) d
         = map (ref_row k scale) (rows_of d xs)"
proof -
  have "take d (map (\<lambda>v. v * scale) (mat_vec (sylvester k) (r @ replicate (2 ^ k - d) 0)))
        = ref_row k scale r" if "r \<in> set (rows_of d xs)" for r
    using length_rows_of_row [OF assms that] by (simp add: ref_row_def)
  then show ?thesis
    by (simp add: slice_last_def mul_scalar_def pad_last_def comp_def cong: map_cong)
qed

lemma ref_value:
  assumes "shape x \<noteq> []" and "0 < last (shape x)"
    and "length (data x) mod last (shape x) = 0"
  shows "hadamard_transform_ref (Some scipy_hadamard) x scale =
         Inr \<lparr>shape = shape x,
              data = concat (map (ref_row (ceillog2 (last (shape x))) scale)
                               (rows_of (last (shape x)) (data x)))\<rparr>"
proof -
  let ?d = "last (shape x)"
  let ?k = "ceillog2 ?d"
  let ?x1 = "rows_of ?d (data x)"
  have lin: "linear (pad_last ?x1 (2 ^ ?k - ?d)) (sylvester ?k) =
             Inr (map (mat_vec (sylvester ?k)) (pad_last ?x1 (2 ^ ?k - ?d)))"
    using assms(2,3) by (intro linear_padded_rows le_two_power_ceillog2) simp_all
  have "hadamard_transform_ref (Some scipy_hadamard) x scale =
        Inr (reshape_back
               (slice_last (mul_scalar (map (mat_vec (sylvester ?k)) (pad_last ?x1 (2 ^ ?k - ?d)))
                  scale) ?d)
               (shape x))"
  proof (cases "?d = 2 ^ ?k")
    case True
    then have "linear ?x1 (sylvester ?k) = Inr (map (mat_vec (sylvester ?k)) ?x1)"
      using lin by simp
    then show ?thesis
      using assms True by (simp add: hadamard_transform_ref_def reshape_rows_def Let_def)
  next
    case False
    then show ?thesis
      using assms by (simp add: hadamard_transform_ref_def reshape_rows_def Let_def lin)
  qed
  then show ?thesis
    using assms(2,3) by (simp add: ref_rows reshape_back_def)
qed

lemma sylvester_entries:
  "r \<in> set (sylvester k) \<Longrightarrow> v \<in> set r \<Longrightarrow> v = 1 \<or> v = - 1"
proof (induction k arbitrary: r v)
  case 0
  then show ?case by simp
next
  case (Suc k)
  from Suc.prems(1) obtain r' where r': "r' \<in> set (sylvester k)"
    and r: "r = r' @ r' \<or> r = r' @ map uminus r'"
    by (auto simp: sylvester_Suc sylvester_step_alt)
  from r Suc.prems(2) have "v \<in> set r' \<or> - v \<in> set r'"
    by (auto simp: image_iff)
  then show ?case
    using Suc.IH [OF r'] by (metis add.inverse_inverse)
qed





section \<open>Concrete values\<close>

lemma ceillog2_3: "ceillog2 3 = 2"
  by (simp add: ceillog2_rec [of 3] ceillog2_rec [of 2])

lemma rows_of_whole: "0 < n \<Longrightarrow> length xs = n \<Longrightarrow> rows_of n xs = [xs]"
  by (subst rows_of.simps) auto

lemma sylvester_1: "sylvester (Suc 0) = [[1, 1], [1, - 1]]"
  by (simp add: sylvester_Suc sylvester_step_alt)

lemma sylvester_2:
  "sylvester 2 = [[1, 1, 1, 1], [1, - 1, 1, - 1], [1, 1, - 1, - 1], [1, - 1, - 1, 1]]"
  by (simp add: numeral_2_eq_2 sylvester_Suc [of "Suc 0"] sylvester_1 sylvester_step_alt)

text \<open>A row that was not padded is rejected by the product.\<close>

lemma linear_unpadded_row: "linear [[1, 2, 3]] (sylvester 2) = Inl RuntimeError"
  by (simp add: linear_def sylvester_2)


text \<open>
  Claim C10.  When the last dimension is 1 the padded length is 1, the matrix is
  \<open>[[1]]\<close>, and the oracle returns the input with every element multiplied by the scale.
\<close>

theorem ref_dim_one:
  assumes "shape x \<noteq> []" and "last (shape x) = 1"
  shows "2 ^ ceillog2 (last (shape x)) = (1::nat) \<and>
         scipy_hadamard (2 ^ ceillog2 (last (shape x))) = Inr [[1]] \<and>
         hadamard_transform_ref (Some scipy_hadamard) x scale =
           Inr \<lparr>shape = shape x, data = map (\<lambda>v. scale * v) (data x)\<rparr>"
proof -
  have "concat (map (ref_row 0 scale) (map (\<lambda>v. [v]) xs)) = map (\<lambda>v. scale * v) xs" for xs
    by (induction xs) (simp_all add: ref_row_def mat_vec_def dot_def)
  moreover have "scipy_hadamard (2 ^ 0) = Inr (sylvester 0)"
    by (rule scipy_hadamard_power)
  ultimately show ?thesis
    using assms ref_value [of x scale] by (simp add: rows_of_singletons)
qed

theorem ref_dim_one_witness:
  "hadamard_transform_ref (Some scipy_hadamard) \<lparr>shape = [2, 1], data = [5, 7]\<rparr> 3 =
   Inr \<lparr>shape = [2, 1], data = [15, 21]\<rparr>"
  using ref_dim_one [of "\<lparr>shape = [2, 1], data = [5, 7]\<rparr>" 3]
  by simp

section \<open>Applying the oracle twice\<close>

lemma length_concat_rows:
  "(\<And>r. r \<in> set rs \<Longrightarrow> length r = n) \<Longrightarrow> length (concat rs) = length rs * n"
  by (induction rs) simp_all

lemma ref_row_full:
  "length r = 2 ^ k \<Longrightarrow> ref_row k 1 r = mat_vec (sylvester k) r"
  by (simp add: ref_row_def)

lemma smult_concat: "smult c (concat rs) = concat (map (smult c) rs)"
  by (induction rs) (simp_all add: smult_def)

text \<open>
  Claim C4, as amended.  For a well-formed tensor whose last dimension is a power of
  two \<open>2 ^ k\<close> and scale 1, the oracle applied to its own output returns the input
  multiplied by \<open>2 ^ k\<close>, which is the padded length.
\<close>

theorem ref_twice_power_of_two:
  assumes "wf_tensor x" and "shape x \<noteq> []" and "last (shape x) = 2 ^ k"
  shows "\<exists>y. hadamard_transform_ref (Some scipy_hadamard) x 1 = Inr y \<and>
             hadamard_transform_ref (Some scipy_hadamard) y 1 =
               Inr \<lparr>shape = shape x, data = smult (2 ^ k) (data x)\<rparr>"
proof -
  let ?d = "(2::nat) ^ k"
  let ?rows = "rows_of ?d (data x)"
  let ?H = "sylvester k"
  define y where "y = \<lparr>shape = shape x, data = concat (map (mat_vec ?H) ?rows)\<rparr>"
  have pos: "0 < ?d"
    by simp
  have m: "length (data x) mod ?d = 0"
    using wf_tensor_mod [OF assms(1,2)] assms(3) by simp
  have len: "length r = ?d" if "r \<in> set ?rows" for r
    using length_rows_of_row [OF pos m that] .
  have first: "hadamard_transform_ref (Some scipy_hadamard) x 1 = Inr y"
    using ref_value [of x 1] assms(2,3) m len
    by (simp add: y_def ref_row_full cong: map_cong)
  have leny: "length r = ?d" if "r \<in> set (map (mat_vec ?H) ?rows)" for r
    using that by auto
  have rows_y: "rows_of ?d (data y) = map (mat_vec ?H) ?rows"
  proof -
    have "rows_of ?d (concat (map (mat_vec ?H) ?rows)) = map (mat_vec ?H) ?rows"
      by (rule rows_of_concat) (use leny in auto)
    then show ?thesis
      by (simp add: y_def)
  qed
  have my: "length (data y) mod ?d = 0"
  proof -
    have "length (concat (map (mat_vec ?H) ?rows)) = length (map (mat_vec ?H) ?rows) * ?d"
      by (rule length_concat_rows) (use leny in auto)
    then show ?thesis
      by (simp add: y_def)
  qed
  have "hadamard_transform_ref (Some scipy_hadamard) y 1 =
        Inr \<lparr>shape = shape y, data = concat (map (ref_row k 1) (rows_of ?d (data y)))\<rparr>"
    using ref_value [of y 1] assms(2,3) my by (simp add: y_def)
  also have "concat (map (ref_row k 1) (rows_of ?d (data y))) =
             concat (map (smult (2 ^ k)) ?rows)"
    using len by (simp add: rows_y ref_row_full sylvester_involution comp_def cong: map_cong)
  also have "\<dots> = smult (2 ^ k) (data x)"
    using concat_rows_of [OF pos, of "data x"] by (simp flip: smult_concat)
  finally show ?thesis
    using first by (simp add: y_def)
qed

theorem ref_twice_power_of_two_witness:
  "\<exists>y. hadamard_transform_ref (Some scipy_hadamard) \<lparr>shape = [2], data = [1, 2]\<rparr> 1 = Inr y \<and>
       hadamard_transform_ref (Some scipy_hadamard) y 1 = Inr \<lparr>shape = [2], data = [2, 4]\<rparr>"
  using ref_twice_power_of_two [of "\<lparr>shape = [2], data = [1, 2]\<rparr>" 1]
  by (simp add: wf_tensor_def smult_def)

text \<open>
  The claim as stated fails on a row of length 3: it is padded to length 4, its
  transform is cut back to 3 elements, and the second pass no longer sees the fourth.
\<close>

theorem ref_twice_length_three_counterexample:
  "hadamard_transform_ref (Some scipy_hadamard) \<lparr>shape = [3], data = [1, 0, 0]\<rparr> 1 =
     Inr \<lparr>shape = [3], data = [1, 1, 1]\<rparr> \<and>
   hadamard_transform_ref (Some scipy_hadamard) \<lparr>shape = [3], data = [1, 1, 1]\<rparr> 1 =
     Inr \<lparr>shape = [3], data = [3, 1, 1]\<rparr> \<and>
   [3, 1, 1] \<noteq> smult (2 ^ ceillog2 3) [1, 0, 0]"
  by (simp add: ref_value ceillog2_3 rows_of_whole ref_row_def sylvester_2 mat_vec_def dot_def
      smult_def)

section \<open>Linearity\<close>

lemma length_lin [simp]: "length (lin a xs b ys) = min (length xs) (length ys)"
  by (simp add: lin_def)

lemma dot_lin:
  "length xs = length ys \<Longrightarrow> dot (lin a xs b ys) w = a * dot xs w + b * dot ys w"
  unfolding dot_def lin_def
proof (induction xs ys arbitrary: w rule: list_induct2)
  case Nil
  show ?case by simp
next
  case (Cons x xs y ys)
  then show ?case by (cases w) (simp_all add: algebra_simps)
qed

lemma lin_map: "lin a (map f W) b (map g W) = map (\<lambda>w. a * f w + b * g w) W"
  by (simp add: lin_def map2_map_map)

lemma mat_vec_lin:
  "length xs = length ys \<Longrightarrow> mat_vec W (lin a xs b ys) = lin a (mat_vec W xs) b (mat_vec W ys)"
  by (simp add: mat_vec_def dot_lin lin_map)

lemma lin_append:
  "length xs = length ys \<Longrightarrow>
   lin a (xs @ xs') b (ys @ ys') = lin a xs b ys @ lin a xs' b ys'"
  by (simp add: lin_def)

lemma lin_replicate_0: "lin a (replicate n 0) b (replicate n 0) = replicate n 0"
  by (simp add: lin_def)

lemma lin_scale: "map (\<lambda>v. v * s) (lin a xs b ys) = lin a (map (\<lambda>v. v * s) xs) b (map (\<lambda>v. v * s) ys)"
  by (simp add: lin_def zip_map1 zip_map2 algebra_simps split_def)

lemma take_lin: "take n (lin a xs b ys) = lin a (take n xs) b (take n ys)"
  by (simp add: lin_def take_map take_zip)

lemma drop_lin: "drop n (lin a xs b ys) = lin a (drop n xs) b (drop n ys)"
  by (simp add: lin_def drop_map drop_zip)

lemma ref_row_lin:
  assumes "length r1 = length r2"
  shows "ref_row k s (lin a r1 b r2) = lin a (ref_row k s r1) b (ref_row k s r2)"
proof -
  let ?n = "2 ^ k - length r1"
  have "lin a r1 b r2 @ replicate ?n 0 = lin a (r1 @ replicate ?n 0) b (r2 @ replicate ?n 0)"
    using assms by (simp add: lin_append lin_replicate_0)
  then show ?thesis
    using assms by (simp add: ref_row_def mat_vec_lin lin_scale take_lin)
qed

lemma length_ref_row: "length (ref_row k s r) = min (length r) (2 ^ k)"
  by (simp add: ref_row_def)

lemma concat_rows_lin:
  "length xs = length ys \<Longrightarrow>
   concat (map (ref_row k s) (rows_of d (lin a xs b ys))) =
   lin a (concat (map (ref_row k s) (rows_of d xs))) b (concat (map (ref_row k s) (rows_of d ys)))"
proof (induction d xs arbitrary: ys rule: rows_of.induct)
  case (1 d xs)
  show ?case
  proof (cases "d = 0 \<or> xs = []")
    case True
    then show ?thesis
      using "1.prems" by (auto simp: rows_of.simps [of 0] lin_def)
  next
    case False
    then have d: "0 < d" and xs: "xs \<noteq> []" and ys: "ys \<noteq> []"
      using "1.prems" by auto
    have l: "lin a xs b ys \<noteq> []"
      using xs ys "1.prems" by (cases xs; cases ys) (simp_all add: lin_def)
    have IH: "concat (map (ref_row k s) (rows_of d (lin a (drop d xs) b (drop d ys)))) =
              lin a (concat (map (ref_row k s) (rows_of d (drop d xs)))) b
                    (concat (map (ref_row k s) (rows_of d (drop d ys))))"
      using "1.IH" [of "drop d ys"] False "1.prems" by simp
    have t: "length (take d xs) = length (take d ys)"
      using "1.prems" by simp
    show ?thesis
      using d xs ys l IH t
      by (simp add: rows_of_Cons take_lin drop_lin ref_row_lin lin_append length_ref_row)
  qed
qed

text \<open>
  The oracle is linear: on well-formed tensors of one shape with a positive last
  dimension it succeeds, and its output on \<open>a * x + b * y\<close> is the same combination of
  its outputs on \<open>x\<close> and \<open>y\<close>.
\<close>

lemma ref_linear:
  assumes "wf_tensor x" and "wf_tensor y" and "shape x = shape y"
    and "shape x \<noteq> []" and "0 < last (shape x)"
  shows "\<exists>rx ry. hadamard_transform_ref (Some scipy_hadamard) x scale = Inr rx \<and>
                 hadamard_transform_ref (Some scipy_hadamard) y scale = Inr ry \<and>
                 hadamard_transform_ref (Some scipy_hadamard) (axpby a x b y) scale =
                   Inr (axpby a rx b ry)"
proof -
  let ?d = "last (shape x)"
  let ?k = "ceillog2 ?d"
  have mx: "length (data x) mod ?d = 0"
    using assms(1,4) by (rule wf_tensor_mod)
  have my: "length (data y) mod ?d = 0"
    using wf_tensor_mod [of y] assms(2,3,4) by simp
  have len: "length (data x) = length (data y)"
    using assms(1,2,3) by (simp add: wf_tensor_def)
  have data: "data (axpby a x b y) = lin a (data x) b (data y)"
    by (simp add: axpby_def)
  have mz: "length (data (axpby a x b y)) mod ?d = 0"
    using mx len by (simp add: data)
  have rx: "hadamard_transform_ref (Some scipy_hadamard) x scale =
            Inr \<lparr>shape = shape x, data = concat (map (ref_row ?k scale) (rows_of ?d (data x)))\<rparr>"
    using assms(4,5) mx by (rule ref_value)
  have ry: "hadamard_transform_ref (Some scipy_hadamard) y scale =
            Inr \<lparr>shape = shape x, data = concat (map (ref_row ?k scale) (rows_of ?d (data y)))\<rparr>"
    using ref_value [of y scale] assms(3,4,5) my by simp
  have rz: "hadamard_transform_ref (Some scipy_hadamard) (axpby a x b y) scale =
            Inr \<lparr>shape = shape x,
                 data = concat (map (ref_row ?k scale) (rows_of ?d (lin a (data x) b (data y))))\<rparr>"
    using ref_value [of "axpby a x b y" scale] assms(4,5) mz
    by (simp add: data) (simp add: axpby_def)
  show ?thesis
    unfolding rx ry rz
    by (simp add: axpby_def concat_rows_lin [OF len])
qed

section \<open>Empty last dimension\<close>

lemma variants_spec_cuda:
  "(f, base) \<in> set variants \<Longrightarrow> f (spec_cuda k_max M) = apply_spec k_max M base"
  by (auto simp add: variants_def spec_cuda_def fun_eq_iff
      hadamard_transform_def hadamard_transform_12N_def hadamard_transform_20N_def
      hadamard_transform_28N_def hadamard_transform_40N_def
      HadamardTransformFn_forward_def HadamardTransform12NFn_forward_def
      HadamardTransform20NFn_forward_def HadamardTransform28NFn_forward_def
      HadamardTransform40NFn_forward_def)

lemma apply_spec_empty_row:
  "last (shape x) = 0 \<Longrightarrow> apply_spec k_max M base x scale inpl = Inl InvalidSize"
  by (simp add: apply_spec_def resolve_def)

text \<open>
  Claim C7.  A call on a tensor whose last dimension is 0 fails before anything is
  transformed.  In the oracle, whatever function is bound to \<open>hadamard\<close>, the failure is
  the RuntimeError that \<open>x.reshape(-1, 0)\<close> raises for the size; the function bound to
  \<open>hadamard\<close> is never consulted.  In the fast path as the spec describes it, each of the
  five public functions fails with the invalid-size error.
\<close>

theorem empty_last_dimension_invalid_size:
  assumes "shape x \<noteq> []" and "last (shape x) = 0"
  shows "reshape_rows x (last (shape x)) = Inl RuntimeError \<and>
         hadamard_transform_ref (Some h) x scale = Inl RuntimeError \<and>
         (\<forall>(f, base)\<in>set variants. f (spec_cuda k_max M) x scale inpl = Inl InvalidSize)"
proof -
  have "reshape_rows x (last (shape x)) = Inl RuntimeError"
    using assms(2) by (simp add: reshape_rows_def)
  moreover have "hadamard_transform_ref (Some h) x scale = Inl RuntimeError"
    using assms by (simp add: hadamard_transform_ref_def reshape_rows_def)
  moreover have "f (spec_cuda k_max M) x scale inpl = Inl InvalidSize"
    if "(f, base) \<in> set variants" for f base
    using assms(2) by (simp add: variants_spec_cuda [OF that] apply_spec_empty_row)
  ultimately show ?thesis
    by blast
qed

theorem empty_last_dimension_invalid_size_witness:
  "reshape_rows \<lparr>shape = [2, 0], data = []\<rparr> 0 = Inl RuntimeError \<and>
   hadamard_transform_ref (Some scipy_hadamard) \<lparr>shape = [2, 0], data = []\<rparr> 1 =
     Inl RuntimeError \<and>
   hadamard_transform_12N (spec_cuda 15 (\<lambda>b. [])) \<lparr>shape = [2, 0], data = []\<rparr> 1 False =
     Inl InvalidSize"
  using empty_last_dimension_invalid_size
    [of "\<lparr>shape = [2, 0], data = []\<rparr>" scipy_hadamard 1 15 "\<lambda>b. []" False]
  by (simp add: variants_def)

section \<open>Forward and backward of the wrappers\<close>

lemma generic_backward_after_forward:
  "generic_backward kern (fst (generic_forward kern c x scale inpl)) dout =
   Inr [Some (kern dout scale inpl), None]"
  by (simp add: generic_backward_def generic_forward_def)

text \<open>
  Claim C9.  Each of the five wrapper classes is the generic operation at its own
  kernel, in the forward and in the backward pass; hence all five save the scale and
  the in-place flag and return the gradient slots in the same way.
\<close>

theorem wrappers_are_generic:
  "HadamardTransformFn_forward m = generic_forward (fast_hadamard_transform m) \<and>
   HadamardTransformFn_backward m = generic_backward (fast_hadamard_transform m) \<and>
   HadamardTransform12NFn_forward m = generic_forward (fast_hadamard_transform_12N m) \<and>
   HadamardTransform12NFn_backward m = generic_backward (fast_hadamard_transform_12N m) \<and>
   HadamardTransform20NFn_forward m = generic_forward (fast_hadamard_transform_20N m) \<and>
   HadamardTransform20NFn_backward m = generic_backward (fast_hadamard_transform_20N m) \<and>
   HadamardTransform28NFn_forward m = generic_forward (fast_hadamard_transform_28N m) \<and>
   HadamardTransform28NFn_backward m = generic_backward (fast_hadamard_transform_28N m) \<and>
   HadamardTransform40NFn_forward m = generic_forward (fast_hadamard_transform_40N m) \<and>
   HadamardTransform40NFn_backward m = generic_backward (fast_hadamard_transform_40N m)"
  by (simp add: fun_eq_iff generic_forward_def generic_backward_def
      HadamardTransformFn_forward_def HadamardTransformFn_backward_def
      HadamardTransform12NFn_forward_def HadamardTransform12NFn_backward_def
      HadamardTransform20NFn_forward_def HadamardTransform20NFn_backward_def
      HadamardTransform28NFn_forward_def HadamardTransform28NFn_backward_def
      HadamardTransform40NFn_forward_def HadamardTransform40NFn_backward_def
      split: option.split)

text \<open>
  Claim C1, evaluated on the code.  After a forward pass the backward pass returns the
  kernel applied to the upstream gradient with the saved scale and in-place flag,
  followed by a single absent slot: two slots, while \<open>apply\<close> was given three inputs.
\<close>

theorem backward_returns_two_slots:
  "HadamardTransformFn_backward m (fst (HadamardTransformFn_forward m c x scale inpl)) dout =
     Inr [Some (fast_hadamard_transform m dout scale inpl), None] \<and>
   HadamardTransform12NFn_backward m (fst (HadamardTransform12NFn_forward m c x scale inpl)) dout =
     Inr [Some (fast_hadamard_transform_12N m dout scale inpl), None] \<and>
   length [Some (fast_hadamard_transform m dout scale inpl), None] = 2 \<and>
   length (apply_inputs x scale inpl) = 3"
  by (simp add: HadamardTransformFn_forward_def HadamardTransformFn_backward_def
      HadamardTransform12NFn_forward_def HadamardTransform12NFn_backward_def apply_inputs_def)

section \<open>The butterfly computes the Sylvester product\<close>

lemma find_k_base_1:
  "0 < len \<Longrightarrow> k \<le> ceillog2 len \<Longrightarrow> ceillog2 len \<le> k + n \<Longrightarrow>
   find_k n 1 len k = Some (ceillog2 len)"
proof (induction n arbitrary: k)
  case 0
  then have "k = ceillog2 len" by simp
  then show ?case
    by (simp add: le_two_power_ceillog2)
next
  case (Suc n)
  show ?case
  proof (cases "len \<le> 2 ^ k")
    case True
    then have "ceillog2 len \<le> k"
      using Suc.prems(1) by (simp add: ceillog2_le_iff)
    with Suc.prems(2) True show ?thesis by simp
  next
    case False
    then have "\<not> ceillog2 len \<le> k"
      using Suc.prems(1) by (simp add: ceillog2_le_iff)
    then have "Suc k \<le> ceillog2 len" by simp
    with False Suc show ?thesis by simp
  qed
qed

lemma resolve_base_1:
  "0 < len \<Longrightarrow> len \<le> 2 ^ k_max \<Longrightarrow>
   resolve k_max len 1 = Inr (2 ^ ceillog2 len, 2 ^ ceillog2 len - len)"
  using find_k_base_1 [of len 0 k_max] by (simp add: resolve_def ceillog2_le_iff)

lemma butterfly_stage_Nil [simp]: "butterfly_stage h [] = []"
  by (simp add: butterfly_stage.simps)

lemma butterfly_stage_step:
  "0 < h \<Longrightarrow> buf \<noteq> [] \<Longrightarrow>
   butterfly_stage h buf =
   butterfly_block h (take (2 * h) buf) @ butterfly_stage h (drop (2 * h) buf)"
  by (subst butterfly_stage.simps) simp

lemma butterfly_stage_append:
  "0 < h \<Longrightarrow> length xs mod (2 * h) = 0 \<Longrightarrow>
   butterfly_stage h (xs @ ys) = butterfly_stage h xs @ butterfly_stage h ys"
proof (induction h xs rule: butterfly_stage.induct)
  case (1 h buf)
  show ?case
  proof (cases "buf = []")
    case True
    then show ?thesis by simp
  next
    case False
    have len: "2 * h \<le> length buf"
    proof (rule ccontr)
      assume "\<not> 2 * h \<le> length buf"
      then have "length buf mod (2 * h) = length buf" by simp
      with "1.prems"(2) False show False by simp
    qed
    have "length (drop (2 * h) buf) mod (2 * h) = 0"
      using "1.prems"(2) len by (simp add: mod_eq_0_iff_dvd)
    then have IH: "butterfly_stage h (drop (2 * h) buf @ ys) =
                   butterfly_stage h (drop (2 * h) buf) @ butterfly_stage h ys"
      using "1.IH" "1.prems"(1) False by simp
    have "butterfly_stage h (buf @ ys) =
          butterfly_block h (take (2 * h) (buf @ ys)) @ butterfly_stage h (drop (2 * h) (buf @ ys))"
      using "1.prems"(1) False by (simp add: butterfly_stage_step)
    also have "\<dots> = butterfly_block h (take (2 * h) buf) @
                    butterfly_stage h (drop (2 * h) buf @ ys)"
      using len by simp
    finally show ?thesis
      using IH "1.prems"(1) False by (simp add: butterfly_stage_step [of h buf])
  qed
qed

lemma length_butterfly_block:
  "length blk = 2 * h \<Longrightarrow> length (butterfly_block h blk) = 2 * h"
  by (simp add: butterfly_block_def)

lemma length_butterfly_stage:
  "0 < h \<Longrightarrow> length xs mod (2 * h) = 0 \<Longrightarrow> length (butterfly_stage h xs) = length xs"
proof (induction h xs rule: butterfly_stage.induct)
  case (1 h buf)
  show ?case
  proof (cases "buf = []")
    case True
    then show ?thesis by simp
  next
    case False
    have len: "2 * h \<le> length buf"
    proof (rule ccontr)
      assume "\<not> 2 * h \<le> length buf"
      then have "length buf mod (2 * h) = length buf" by simp
      with "1.prems"(2) False show False by simp
    qed
    have "length (drop (2 * h) buf) mod (2 * h) = 0"
      using "1.prems"(2) len by (simp add: mod_eq_0_iff_dvd)
    then have "length (butterfly_stage h (drop (2 * h) buf)) = length buf - 2 * h"
      using "1.IH" "1.prems"(1) False by simp
    then show ?thesis
      using "1.prems"(1) False len
      by (simp add: butterfly_stage_step [of h buf] length_butterfly_block)
  qed
qed

lemma stages_Suc:
  "fold (\<lambda>s b. butterfly_stage (2 ^ s) b) [0..<Suc j] buf =
   butterfly_stage (2 ^ j) (fold (\<lambda>s b. butterfly_stage (2 ^ s) b) [0..<j] buf)"
  by simp

lemma length_stages:
  "length xs = 2 ^ k \<Longrightarrow> j \<le> k \<Longrightarrow>
   length (fold (\<lambda>s b. butterfly_stage (2 ^ s) b) [0..<j] xs) = 2 ^ k"
proof (induction j)
  case 0
  then show ?case by simp
next
  case (Suc j)
  let ?prev = "fold (\<lambda>s b. butterfly_stage (2 ^ s) b) [0..<j] xs"
  have prev: "length ?prev = 2 ^ k"
    using Suc by simp
  have "(2::nat) ^ Suc j dvd 2 ^ k"
    using Suc.prems(2) by (rule le_imp_power_dvd)
  then have "length ?prev mod (2 * 2 ^ j) = 0"
    using prev by (simp add: mod_eq_0_iff_dvd)
  then have "length (butterfly_stage (2 ^ j) ?prev) = length ?prev"
    by (intro length_butterfly_stage) simp_all
  then show ?case
    using prev by (simp only: stages_Suc)
qed

lemma stages_append:
  "length xs = 2 ^ k \<Longrightarrow> j \<le> k \<Longrightarrow>
   fold (\<lambda>s b. butterfly_stage (2 ^ s) b) [0..<j] (xs @ ys) =
   fold (\<lambda>s b. butterfly_stage (2 ^ s) b) [0..<j] xs @
   fold (\<lambda>s b. butterfly_stage (2 ^ s) b) [0..<j] ys"
proof (induction j)
  case 0
  then show ?case by simp
next
  case (Suc j)
  let ?f = "\<lambda>s b. butterfly_stage (2 ^ s) b"
  have prev: "length (fold ?f [0..<j] xs) = 2 ^ k"
    using Suc.prems by (intro length_stages) simp_all
  have "(2::nat) ^ Suc j dvd 2 ^ k"
    using Suc.prems(2) by (rule le_imp_power_dvd)
  then have m: "length (fold ?f [0..<j] xs) mod (2 * 2 ^ j) = 0"
    using prev by (simp add: mod_eq_0_iff_dvd)
  have IH: "fold ?f [0..<j] (xs @ ys) = fold ?f [0..<j] xs @ fold ?f [0..<j] ys"
    using Suc by simp
  have "fold ?f [0..<Suc j] (xs @ ys) =
        butterfly_stage (2 ^ j) (fold ?f [0..<j] xs @ fold ?f [0..<j] ys)"
    by (simp only: stages_Suc IH)
  also have "\<dots> = butterfly_stage (2 ^ j) (fold ?f [0..<j] xs) @
                  butterfly_stage (2 ^ j) (fold ?f [0..<j] ys)"
    by (rule butterfly_stage_append) (simp_all add: m)
  finally show ?case
    by (simp only: stages_Suc)
qed

lemma butterfly_stage_one_block:
  "0 < h \<Longrightarrow> length a = h \<Longrightarrow> length b = h \<Longrightarrow>
   butterfly_stage h (a @ b) = vadd a b @ vsub a b"
  by (cases "a @ b = []") (simp_all add: butterfly_stage_step butterfly_block_def)

lemma stages_sylvester:
  "length buf = 2 ^ k \<Longrightarrow>
   fold (\<lambda>s b. butterfly_stage (2 ^ s) b) [0..<k] buf = mat_vec (sylvester k) buf"
proof (induction k arbitrary: buf)
  case 0
  then obtain v where "buf = [v]"
    by (cases buf) simp_all
  then show ?case
    by (simp add: mat_vec_def dot_def)
next
  case (Suc k)
  let ?f = "\<lambda>s b. butterfly_stage (2 ^ s) b"
  define x1 where "x1 = take (2 ^ k) buf"
  define x2 where "x2 = drop (2 ^ k) buf"
  have buf: "buf = x1 @ x2" and l1: "length x1 = 2 ^ k" and l2: "length x2 = 2 ^ k"
    using Suc.prems by (simp_all add: x1_def x2_def)
  have "fold ?f [0..<Suc k] buf = butterfly_stage (2 ^ k) (fold ?f [0..<k] (x1 @ x2))"
    unfolding buf by (simp only: stages_Suc)
  also have "fold ?f [0..<k] (x1 @ x2) = fold ?f [0..<k] x1 @ fold ?f [0..<k] x2"
    by (rule stages_append [OF l1 order_refl])
  also have "\<dots> = mat_vec (sylvester k) x1 @ mat_vec (sylvester k) x2"
    using Suc.IH l1 l2 by simp
  also have "butterfly_stage (2 ^ k) \<dots> =
             vadd (mat_vec (sylvester k) x1) (mat_vec (sylvester k) x2) @
             vsub (mat_vec (sylvester k) x1) (mat_vec (sylvester k) x2)"
    by (rule butterfly_stage_one_block) simp_all
  also have "\<dots> = mat_vec (sylvester (Suc k)) (x1 @ x2)"
    unfolding sylvester_Suc
    by (rule mat_vec_sylvester_step [symmetric]) (simp add: length_row_sylvester l1)
  finally show ?case
    by (simp add: buf)
qed

lemma transform_pow2_sylvester:
  "length buf = 2 ^ k \<Longrightarrow> transform_pow2 buf = mat_vec (sylvester k) buf"
  by (simp add: transform_pow2_def stages_sylvester)

lemma concat_singletons: "concat (map (\<lambda>i. [f i]) is) = map f is"
  by (induction "is") simp_all

lemma lane_base_1: "lane (Suc 0) (length buf) buf 0 = buf"
  by (simp add: lane_def map_nth)

lemma transform_base_1:
  assumes "length buf = 2 ^ k"
  shows "transform M 1 buf = mat_vec (sylvester k) buf"
proof -
  let ?t = "mat_vec (sylvester k) buf"
  have "transform M 1 buf = map (\<lambda>i. ?t ! i) [0..<length buf]"
  proof -
    have "lane (Suc 0) (2 ^ k) buf 0 = buf"
      using lane_base_1 [of buf] assms by simp
    then show ?thesis
      using assms
      by (simp add: transform_def Let_def transform_pow2_sylvester concat_singletons)
  qed
  also have "\<dots> = ?t"
  proof -
    have "length ?t = length buf"
      using assms by simp
    then show ?thesis
      by (metis map_nth)
  qed
  finally show ?thesis .
qed

section \<open>The fast path against the reference oracle\<close>

lemma apply_spec_base_1:
  assumes "shape x \<noteq> []" and "0 < last (shape x)" and "last (shape x) \<le> 2 ^ k_max"
    and "length (data x) mod last (shape x) = 0"
    and "\<not> inpl \<or> last (shape x) = 2 ^ ceillog2 (last (shape x))"
  shows "apply_spec k_max M 1 x scale inpl =
         Inr \<lparr>shape = shape x,
              data = concat (map (ref_row (ceillog2 (last (shape x))) scale)
                               (rows_of (last (shape x)) (data x)))\<rparr>"
proof -
  let ?d = "last (shape x)"
  let ?k = "ceillog2 ?d"
  have res: "resolve k_max ?d 1 = Inr (2 ^ ?k, 2 ^ ?k - ?d)"
    using assms(2,3) by (rule resolve_base_1)
  have le: "?d \<le> 2 ^ ?k"
    by (rule le_two_power_ceillog2)
  have row: "take ?d (map (\<lambda>v. v * scale) (transform M 1 (r @ replicate (2 ^ ?k - ?d) 0)))
             = ref_row ?k scale r" if "r \<in> set (rows_of ?d (data x))" for r
  proof -
    have lr: "length r = ?d"
      using length_rows_of_row [OF assms(2,4) that] .
    then have "length (r @ replicate (2 ^ ?k - ?d) 0) = 2 ^ ?k"
      using le by simp
    then have "transform M 1 (r @ replicate (2 ^ ?k - ?d) 0) =
               mat_vec (sylvester ?k) (r @ replicate (2 ^ ?k - ?d) 0)"
      by (rule transform_base_1)
    then show ?thesis
      using lr by (simp add: ref_row_def)
  qed
  have "\<not> (inpl \<and> 0 < 2 ^ ?k - ?d)"
    using assms(5) by auto
  then show ?thesis
    using assms(1) res row by (simp add: apply_spec_def Let_def cong: map_cong)
qed

text \<open>
  Claim C2, as amended.  For base factor 1, a well-formed tensor whose rows have a
  positive length of at most \<open>2 ^ k_max\<close>, and a call that is out of place or needs no
  padding, the fast path as the spec describes it and the reference oracle both
  succeed and return the same tensor.
\<close>

theorem fast_path_base_1_agrees_with_ref:
  assumes "wf_tensor x" and "shape x \<noteq> []" and "0 < last (shape x)"
    and "last (shape x) \<le> 2 ^ k_max"
    and "\<not> inpl \<or> last (shape x) = 2 ^ ceillog2 (last (shape x))"
  shows "\<exists>y. hadamard_transform (spec_cuda k_max M) x scale inpl = Inr y \<and>
             hadamard_transform_ref (Some scipy_hadamard) x scale = Inr y"
proof -
  have m: "length (data x) mod last (shape x) = 0"
    using assms(1,2) by (rule wf_tensor_mod)
  have "hadamard_transform (spec_cuda k_max M) x scale inpl = apply_spec k_max M 1 x scale inpl"
    by (simp add: hadamard_transform_def HadamardTransformFn_forward_def spec_cuda_def)
  then show ?thesis
    using apply_spec_base_1 [OF assms(2,3,4) m assms(5)] ref_value [OF assms(2,3) m]
    by simp
qed

theorem fast_path_base_1_agrees_with_ref_witness:
  "\<exists>y. hadamard_transform (spec_cuda 15 (\<lambda>b. [])) \<lparr>shape = [3], data = [1, 2, 3]\<rparr> 2 False = Inr y \<and>
       hadamard_transform_ref (Some scipy_hadamard) \<lparr>shape = [3], data = [1, 2, 3]\<rparr> 2 = Inr y"
  using fast_path_base_1_agrees_with_ref
    [of "\<lparr>shape = [3], data = [1, 2, 3]\<rparr>" 15 False "\<lambda>b. []" 2]
  by (simp add: wf_tensor_def)

section \<open>Base factor 12 against the reference oracle\<close>

lemma transform_pow2_single: "transform_pow2 [v] = [v]"
  by (simp add: transform_pow2_def)

lemma transform_single_block:
  assumes "1 < base" and "length buf = base"
  shows "transform M base buf = mat_vec (M base) buf"
proof -
  let ?lanes = "map (\<lambda>j. transform_pow2 (lane base 1 buf j)) [0..<base]"
  have "map (\<lambda>j. ?lanes ! j ! 0) [0..<base] = map (\<lambda>j. buf ! j) [0..<base]"
    by (rule map_cong) (simp_all add: lane_def transform_pow2_single)
  also have "\<dots> = buf"
    using assms(2) by (metis map_nth)
  finally have "map (\<lambda>j. ?lanes ! j ! 0) [0..<base] = buf" .
  moreover have "length buf div base = 1"
    using assms by simp
  ultimately show ?thesis
    using assms(1) by (simp add: transform_def Let_def transform_base_def)
qed

lemma fast_12_single_block:
  assumes "length buf = 12" and "length (M 12) = 12"
  shows "hadamard_transform_12N (spec_cuda k_max M) \<lparr>shape = [12], data = buf\<rparr> 1 False =
         Inr \<lparr>shape = [12], data = mat_vec (M 12) buf\<rparr>"
proof -
  have "find_k k_max 12 12 0 = Some 0"
    by (cases k_max) simp_all
  then have res: "resolve k_max 12 12 = Inr (12, 0)"
    by (simp add: resolve_def)
  have "transform M 12 buf = mat_vec (M 12) buf"
    using assms(1) by (intro transform_single_block) simp_all
  then show ?thesis
    using assms res
    by (simp add: hadamard_transform_12N_def HadamardTransform12NFn_forward_def spec_cuda_def
        apply_spec_def rows_of_whole)
qed

lemma ceillog2_12: "ceillog2 12 = 4"
  by (simp add: ceillog2_rec [of 12] ceillog2_rec [of 6] ceillog2_3)

lemma sylvester_3:
  "sylvester 3 =
   [[1, 1, 1, 1, 1, 1, 1, 1],
    [1, - 1, 1, - 1, 1, - 1, 1, - 1],
    [1, 1, - 1, - 1, 1, 1, - 1, - 1],
    [1, - 1, - 1, 1, 1, - 1, - 1, 1],
    [1, 1, 1, 1, - 1, - 1, - 1, - 1],
    [1, - 1, 1, - 1, - 1, 1, - 1, 1],
    [1, 1, - 1, - 1, - 1, - 1, 1, 1],
    [1, - 1, - 1, 1, - 1, 1, 1, - 1]]"
proof -
  have "sylvester 3 = sylvester_step (sylvester 2)"
    using sylvester_Suc [of 2] by (simp add: eval_nat_numeral)
  then show ?thesis
    by (simp add: sylvester_2 sylvester_step_alt)
qed

lemma replicate_4: "replicate 4 v = [v, v, v, v]"
  by (simp add: eval_nat_numeral)

lemma ref_12_unit_0:
  "hadamard_transform_ref (Some scipy_hadamard)
     \<lparr>shape = [12], data = [1, 0, 0, 0, 0, 0, 0, 0, 0, 0, 0, 0]\<rparr> 1 =
   Inr \<lparr>shape = [12], data = [1, 1, 1, 1, 1, 1, 1, 1, 1, 1, 1, 1]\<rparr>"
proof -
  have s4: "sylvester 4 = sylvester_step (sylvester 3)"
    using sylvester_Suc [of 3] by (simp add: eval_nat_numeral)
  show ?thesis
    by (simp add: ref_value ceillog2_12 rows_of_whole ref_row_def s4 sylvester_3
        sylvester_step_alt mat_vec_def dot_def replicate_4)
qed

lemma ref_12_unit_8:
  "hadamard_transform_ref (Some scipy_hadamard)
     \<lparr>shape = [12], data = [0, 0, 0, 0, 0, 0, 0, 0, 1, 0, 0, 0]\<rparr> 1 =
   Inr \<lparr>shape = [12], data = [1, 1, 1, 1, 1, 1, 1, 1, - 1, - 1, - 1, - 1]\<rparr>"
proof -
  have s4: "sylvester 4 = sylvester_step (sylvester 3)"
    using sylvester_Suc [of 3] by (simp add: eval_nat_numeral)
  show ?thesis
    by (simp add: ref_value ceillog2_12 rows_of_whole ref_row_def s4 sylvester_3
        sylvester_step_alt mat_vec_def dot_def replicate_4)
qed

lemma upt_12: "[0..<12] = [0, 1, 2, 3, 4, 5, 6, 7, 8, 9, 10, 11]"
  by (simp add: upt_rec)

lemma base_matrix_ok_paley_12: "base_matrix_ok 12 paley_12"
  by (simp add: base_matrix_ok_def paley_12_def upt_12 dot_def)

lemma dot_replicate_0: "dot (replicate n 0) w = 0"
proof (induction n arbitrary: w)
  case 0
  then show ?case by (simp add: dot_def)
next
  case (Suc n)
  then show ?case by (cases w) (simp_all add: dot_def)
qed

lemma dot_unit:
  "j < n \<Longrightarrow> length w = n \<Longrightarrow> dot ((replicate n 0)[j := 1]) w = w ! j"
proof (induction n arbitrary: j w)
  case 0
  then show ?case by simp
next
  case (Suc n)
  then obtain b ys where w: "w = b # ys" and ys: "length ys = n"
    by (cases w) auto
  show ?case
  proof (cases j)
    case 0
    have "dot (1 # replicate n 0) (b # ys) = b + dot (replicate n 0) ys"
      by (simp add: dot_def)
    then show ?thesis
      using 0 w by (simp add: dot_replicate_0)
  next
    case (Suc i)
    then have "i < n" using Suc.prems(1) by simp
    then have "dot ((replicate n 0)[i := 1]) ys = ys ! i"
      using ys by (rule Suc.IH)
    moreover have "dot (0 # (replicate n 0)[i := 1]) (b # ys) = dot ((replicate n 0)[i := 1]) ys"
      by (simp add: dot_def)
    ultimately show ?thesis
      using Suc w by simp
  qed
qed

lemma base_12_agreement_impossible:
  assumes ok: "base_matrix_ok 12 A"
    and a0: "mat_vec A ((replicate 12 0)[0 := 1]) = replicate 12 1"
    and a8: "mat_vec A ((replicate 12 0)[8 := 1]) = replicate 8 1 @ replicate 4 (- 1)"
  shows False
proof -
  have len: "length A = 12"
    using ok by (simp add: base_matrix_ok_def)
  have rows: "length (A ! i) = 12" if "i < 12" for i
    using ok that by (simp add: base_matrix_ok_def list_all_length)
  have sym: "A ! i ! j = A ! j ! i" if "i < 12" "j < 12" for i j
    using ok that by (simp add: base_matrix_ok_def list_all_length)
  have orth: "dot (A ! 0) (A ! 8) = 0"
    using ok by (simp add: base_matrix_ok_def list_all_length)
  have c0: "A ! i ! 0 = 1" if "i < 12" for i
  proof -
    have "mat_vec A ((replicate 12 0)[0 := 1]) ! i = dot ((replicate 12 0)[0 := 1]) (A ! i)"
      using that len by (simp add: mat_vec_def)
    also have "\<dots> = A ! i ! 0"
      using rows [OF that] by (intro dot_unit) simp_all
    finally show ?thesis
      using that by (simp add: a0)
  qed
  have c8: "A ! i ! 8 = (replicate 8 1 @ replicate 4 (- 1)) ! i" if "i < 12" for i
  proof -
    have "mat_vec A ((replicate 12 0)[8 := 1]) ! i = dot ((replicate 12 0)[8 := 1]) (A ! i)"
      using that len by (simp add: mat_vec_def)
    also have "\<dots> = A ! i ! 8"
      using rows [OF that] by (intro dot_unit) simp_all
    finally show ?thesis
      by (simp add: a8)
  qed
  have r0: "A ! 0 = replicate 12 1"
  proof (rule nth_equalityI)
    show "length (A ! 0) = length (replicate 12 (1::real))"
      using rows [of 0] by simp
  next
    fix i assume "i < length (A ! 0)"
    then have i: "i < 12" using rows [of 0] by simp
    then have "A ! 0 ! i = A ! i ! 0" by (intro sym) simp_all
    then show "A ! 0 ! i = replicate 12 1 ! i"
      using i by (simp add: c0)
  qed
  have r8: "A ! 8 = replicate 8 1 @ replicate 4 (- 1)"
  proof (rule nth_equalityI)
    show "length (A ! 8) = length (replicate 8 (1::real) @ replicate 4 (- 1))"
      using rows [of 8] by simp
  next
    fix i assume "i < length (A ! 8)"
    then have i: "i < 12" using rows [of 8] by simp
    then have "A ! 8 ! i = A ! i ! 8" by (intro sym) simp_all
    then show "A ! 8 ! i = (replicate 8 1 @ replicate 4 (- 1)) ! i"
      using i by (simp only: c8)
  qed
  have "dot (replicate 12 1) (replicate 8 1 @ replicate 4 (- 1)) = (4::real)"
    by (simp add: dot_def eval_nat_numeral)
  then show False
    using orth by (simp add: r0 r8)
qed

text \<open>
  Claim C2, the counterexample.  For base factor 12 and a row of length 12 the fast path
  is the product with the 12 x 12 base matrix, while the reference oracle pads the row
  to 16 and keeps the first 12 entries of the product with the 16 x 16 Sylvester matrix.
  No symmetric matrix with \<open>M\<^sub>1\<^sub>2 \<cdot> M\<^sub>1\<^sub>2 = 12 \<cdot> I\<close> agrees with the oracle on both the unit row
  \<open>e\<^sub>0\<close> and the unit row \<open>e\<^sub>8\<close>: its rows 0 and 8 would have to be columns 0 and 8 of the
  Sylvester matrix cut to length 12, whose inner product is 4.
\<close>

theorem fast_path_base_12_counterexample:
  "\<not> (\<exists>k_max M. base_matrix_ok 12 (M 12) \<and>
        (\<exists>y. hadamard_transform_12N (spec_cuda k_max M)
                \<lparr>shape = [12], data = [1, 0, 0, 0, 0, 0, 0, 0, 0, 0, 0, 0]\<rparr> 1 False = Inr y \<and>
              hadamard_transform_ref (Some scipy_hadamard)
                \<lparr>shape = [12], data = [1, 0, 0, 0, 0, 0, 0, 0, 0, 0, 0, 0]\<rparr> 1 = Inr y) \<and>
        (\<exists>y. hadamard_transform_12N (spec_cuda k_max M)
                \<lparr>shape = [12], data = [0, 0, 0, 0, 0, 0, 0, 0, 1, 0, 0, 0]\<rparr> 1 False = Inr y \<and>
              hadamard_transform_ref (Some scipy_hadamard)
                \<lparr>shape = [12], data = [0, 0, 0, 0, 0, 0, 0, 0, 1, 0, 0, 0]\<rparr> 1 = Inr y))"
proof
  assume "\<exists>k_max M. base_matrix_ok 12 (M 12) \<and>
        (\<exists>y. hadamard_transform_12N (spec_cuda k_max M)
                \<lparr>shape = [12], data = [1, 0, 0, 0, 0, 0, 0, 0, 0, 0, 0, 0]\<rparr> 1 False = Inr y \<and>
              hadamard_transform_ref (Some scipy_hadamard)
                \<lparr>shape = [12], data = [1, 0, 0, 0, 0, 0, 0, 0, 0, 0, 0, 0]\<rparr> 1 = Inr y) \<and>
        (\<exists>y. hadamard_transform_12N (spec_cuda k_max M)
                \<lparr>shape = [12], data = [0, 0, 0, 0, 0, 0, 0, 0, 1, 0, 0, 0]\<rparr> 1 False = Inr y \<and>
              hadamard_transform_ref (Some scipy_hadamard)
                \<lparr>shape = [12], data = [0, 0, 0, 0, 0, 0, 0, 0, 1, 0, 0, 0]\<rparr> 1 = Inr y)"
  then obtain k_max M where ok: "base_matrix_ok 12 (M 12)"
    and f0: "hadamard_transform_12N (spec_cuda k_max M)
               \<lparr>shape = [12], data = [1, 0, 0, 0, 0, 0, 0, 0, 0, 0, 0, 0]\<rparr> 1 False =
             Inr \<lparr>shape = [12], data = [1, 1, 1, 1, 1, 1, 1, 1, 1, 1, 1, 1]\<rparr>"
    and f8: "hadamard_transform_12N (spec_cuda k_max M)
               \<lparr>shape = [12], data = [0, 0, 0, 0, 0, 0, 0, 0, 1, 0, 0, 0]\<rparr> 1 False =
             Inr \<lparr>shape = [12], data = [1, 1, 1, 1, 1, 1, 1, 1, - 1, - 1, - 1, - 1]\<rparr>"
    by (auto simp only: ref_12_unit_0 ref_12_unit_8)
  have len: "length (M 12) = 12"
    using ok by (simp add: base_matrix_ok_def)
  have e0: "[1, 0, 0, 0, 0, 0, 0, 0, 0, 0, 0, 0] = (replicate 12 (0::real))[0 := 1]"
    by (simp add: eval_nat_numeral)
  have e8: "[0, 0, 0, 0, 0, 0, 0, 0, 1, 0, 0, 0] = (replicate 12 (0::real))[8 := 1]"
    by (simp add: eval_nat_numeral)
  have o0: "[1, 1, 1, 1, 1, 1, 1, 1, 1, 1, 1, 1] = replicate 12 (1::real)"
    by (simp add: eval_nat_numeral)
  have o8: "[1, 1, 1, 1, 1, 1, 1, 1, - 1, - 1, - 1, - 1] =
            replicate 8 (1::real) @ replicate 4 (- 1)"
    by (simp add: eval_nat_numeral)
  have "mat_vec (M 12) [1, 0, 0, 0, 0, 0, 0, 0, 0, 0, 0, 0] =
        [1, 1, 1, 1, 1, 1, 1, 1, 1, 1, 1, 1]"
    using f0 len by (simp add: fast_12_single_block)
  then have a0: "mat_vec (M 12) ((replicate 12 0)[0 := 1]) = replicate 12 1"
    by (simp only: e0 o0)
  have "mat_vec (M 12) [0, 0, 0, 0, 0, 0, 0, 0, 1, 0, 0, 0] =
        [1, 1, 1, 1, 1, 1, 1, 1, - 1, - 1, - 1, - 1]"
    using f8 len by (simp add: fast_12_single_block)
  then have a8: "mat_vec (M 12) ((replicate 12 0)[8 := 1]) =
                 replicate 8 1 @ replicate 4 (- 1)"
    by (simp only: e8 o8)
  show False
    using ok a0 a8 by (rule base_12_agreement_impossible)
qed

section \<open>Frame of the reference oracle\<close>

lemma frame_refl: "frame st st"
  by (simp add: frame_def)

lemma frame_trans: "frame st st' \<Longrightarrow> frame st' st'' \<Longrightarrow> frame st st''"
  by (auto simp add: frame_def)

lemma alloc_frame: "alloc xs st = (a, st') \<Longrightarrow> frame st st' \<and> a = next_addr st \<and> next_addr st' = Suc a"
  by (auto simp add: alloc_def frame_def)

lemma pad_alloc_frame:
  "pad_alloc st t extra = (t', st') \<Longrightarrow>
   frame st st' \<and> storage t' = next_addr st \<and> next_addr st' = Suc (next_addr st)"
  by (auto simp add: pad_alloc_def Let_def split: prod.splits dest: alloc_frame)

lemma tensor_of_matrix_frame:
  "tensor_of_matrix st W = (t', st') \<Longrightarrow>
   frame st st' \<and> storage t' = next_addr st \<and> next_addr st' = Suc (next_addr st)"
  by (auto simp add: tensor_of_matrix_def Let_def split: prod.splits dest: alloc_frame)

lemma linear_alloc_frame:
  "linear_alloc st t w = (res, st') \<Longrightarrow>
   frame st st' \<and>
   (\<forall>t'. res = Inr t' \<longrightarrow> storage t' = next_addr st \<and> next_addr st' = Suc (next_addr st))"
  by (auto simp add: linear_alloc_def Let_def frame_refl
      split: prod.splits if_splits dest: alloc_frame)

lemma mul_scalar_alloc_frame:
  "mul_scalar_alloc st t c = (t', st') \<Longrightarrow>
   frame st st' \<and> storage t' = next_addr st \<and> next_addr st' = Suc (next_addr st)"
  by (auto simp add: mul_scalar_alloc_def Let_def split: prod.splits dest: alloc_frame)

lemma rows_at_frame:
  "frame st st' \<Longrightarrow> storage t < next_addr st \<Longrightarrow> rows_at st' t = rows_at st t"
  by (simp add: rows_at_def frame_def)

lemma read_frame:
  "frame st st' \<Longrightarrow> storage t < next_addr st \<Longrightarrow> read st' t = read st t"
  by (simp add: read_def rows_at_frame)

lemma ref_store_frame:
  assumes "hadamard_transform_ref_store hadamard_fn st x scale = (res, st')"
  shows "frame st st'"
    and "res = Inr r \<Longrightarrow> next_addr st \<le> storage r \<and> storage r < next_addr st'"
proof -
  show "frame st st'"
    using assms
    by (auto simp add: hadamard_transform_ref_store_def Let_def frame_refl
        split: option.splits if_splits sum.splits prod.splits
        dest!: pad_alloc_frame tensor_of_matrix_frame linear_alloc_frame mul_scalar_alloc_frame
        intro: frame_trans)
  show "next_addr st \<le> storage r \<and> storage r < next_addr st'" if "res = Inr r"
    using assms that
    by (auto simp add: hadamard_transform_ref_store_def Let_def reshape_back_view_def
        slice_last_view_def
        split: option.splits if_splits sum.splits prod.splits
        dest!: pad_alloc_frame tensor_of_matrix_frame linear_alloc_frame mul_scalar_alloc_frame)
qed

lemma prod_list_butlast_last:
  "xs \<noteq> [] \<Longrightarrow> prod_list (butlast xs) * last xs = prod_list (xs :: nat list)"
  by (induction xs) (auto simp add: mult.assoc)

lemma ref_store_returns:
  assumes "tshape x \<noteq> []" and "0 < last (tshape x)"
  shows "\<exists>r st'. hadamard_transform_ref_store (Some scipy_hadamard) st x scale = (Inr r, st')"
proof -
  let ?d = "last (tshape x)"
  let ?n = "prod_list (butlast (tshape x))"
  have n: "numel x = ?n * ?d"
    using assms(1) by (simp add: numel_def prod_list_butlast_last)
  then have r1: "reshape_rows_view x ?d =
                 Inr \<lparr>storage = storage x, tshape = [?n, ?d], row_stride = row_stride x\<rparr>"
    using assms(2) by (simp add: reshape_rows_view_def)
  have le: "?d \<le> 2 ^ ceillog2 ?d"
    by (rule le_two_power_ceillog2)
  then have m: "min ?d (2 ^ ceillog2 ?d) = ?d"
    by simp
  have len: "length (sylvester (ceillog2 ?d)) = 2 ^ ceillog2 ?d"
    by (rule length_sylvester)
  show ?thesis
    using assms n le
    by (simp add: hadamard_transform_ref_store_def r1 Let_def pad_alloc_def
        tensor_of_matrix_def linear_alloc_def mul_scalar_alloc_def alloc_def
        reshape_back_view_def slice_last_view_def numel_def len m
        split: prod.splits)
qed

subsection \<open>The store model computes the values of the pure model\<close>

lemma drop_concat_rows:
  "(\<And>row. row \<in> set rs \<Longrightarrow> length row = m) \<Longrightarrow> i \<le> length rs \<Longrightarrow>
   drop (i * m) (concat rs) = concat (drop i rs)"
proof (induction rs arbitrary: i)
  case Nil
  then show ?case by simp
next
  case (Cons row rs)
  show ?case
  proof (cases i)
    case 0
    then show ?thesis by simp
  next
    case (Suc j)
    have "length row = m"
      using Cons.prems(1) by simp
    moreover have "drop (j * m) (concat rs) = concat (drop j rs)"
      using Cons.prems Suc by (intro Cons.IH) simp_all
    ultimately show ?thesis
      using Suc by simp
  qed
qed

lemma take_drop_concat_rows:
  assumes "\<And>row. row \<in> set rs \<Longrightarrow> length row = m" and "i < length rs" and "d \<le> m"
  shows "take d (drop (i * m) (concat rs)) = take d (rs ! i)"
proof -
  have "drop (i * m) (concat rs) = concat (drop i rs)"
    using assms(1,2) by (intro drop_concat_rows) simp_all
  also have "drop i rs = rs ! i # drop (Suc i) rs"
    using assms(2) by (simp add: Cons_nth_drop_Suc)
  finally have "drop (i * m) (concat rs) = rs ! i @ concat (drop (Suc i) rs)"
    by simp
  moreover have "length (rs ! i) = m"
    using assms(1,2) by simp
  ultimately show ?thesis
    using assms(3) by simp
qed

lemma rows_at_contiguous:
  assumes "cells st (storage t) = concat rs"
    and "\<And>row. row \<in> set rs \<Longrightarrow> length row = m"
    and "prod_list (butlast (tshape t)) = length rs"
    and "last (tshape t) \<le> m" and "row_stride t = m"
  shows "rows_at st t = map (take (last (tshape t))) rs"
proof -
  have "map (\<lambda>i. take (last (tshape t)) (drop (i * m) (concat rs))) [0..<length rs] =
        map (\<lambda>i. take (last (tshape t)) (rs ! i)) [0..<length rs]"
    using assms(2,4) by (intro map_cong refl take_drop_concat_rows) simp_all
  also have "\<dots> = map (take (last (tshape t))) (map (\<lambda>i. rs ! i) [0..<length rs])"
    by simp
  also have "\<dots> = map (take (last (tshape t))) rs"
    by (simp only: map_nth)
  finally show ?thesis
    using assms(1,3,5) by (simp add: rows_at_def)
qed

text \<open>
  The rows read through a handle: their number, and their length when every row lies
  inside the storage.
\<close>

lemma length_rows_at: "length (rows_at st t) = prod_list (butlast (tshape t))"
  by (simp add: rows_at_def)

lemma rows_at_row_length:
  assumes "\<And>i. i < prod_list (butlast (tshape t)) \<Longrightarrow>
             i * row_stride t + last (tshape t) \<le> length (cells st (storage t))"
    and "row \<in> set (rows_at st t)"
  shows "length row = last (tshape t)"
proof -
  obtain i where i: "i < prod_list (butlast (tshape t))"
    and row: "row = take (last (tshape t)) (drop (i * row_stride t) (cells st (storage t)))"
    using assms(2) by (auto simp add: rows_at_def)
  show ?thesis
    using assms(1) [OF i] by (simp add: row)
qed

lemma map_take_all: "(\<And>row. row \<in> set rs \<Longrightarrow> length row = m) \<Longrightarrow> map (take m) rs = rs"
  by (induction rs) simp_all

lemma ref_store_refines:
  assumes alloc: "storage x < next_addr st" and ne: "tshape x \<noteq> []"
    and pos: "0 < last (tshape x)"
    and bounds: "\<And>i. i < prod_list (butlast (tshape x)) \<Longrightarrow>
                   i * row_stride x + last (tshape x) \<le> length (cells st (storage x))"
  shows "\<exists>r st'. hadamard_transform_ref_store (Some scipy_hadamard) st x scale = (Inr r, st') \<and>
           hadamard_transform_ref (Some scipy_hadamard) (read st x) scale = Inr (read st' r)"
proof -
  let ?d = "last (tshape x)"
  let ?n = "prod_list (butlast (tshape x))"
  let ?k = "ceillog2 ?d"
  let ?R = "rows_at st x"
  let ?a = "next_addr st"
  let ?x1 = "\<lparr>storage = storage x, tshape = [?n, ?d], row_stride = row_stride x\<rparr>"
  let ?P = "map (\<lambda>row. row @ replicate (2 ^ ?k - ?d) 0) ?R"
  let ?L = "map (mat_vec (sylvester ?k)) ?P"
  let ?S = "map (map (\<lambda>v. v * scale)) ?L"
  have lenR: "length row = ?d" if "row \<in> set ?R" for row
    using bounds that by (rule rows_at_row_length)
  have nR: "length ?R = ?n"
    by (rule length_rows_at)
  have le: "?d \<le> 2 ^ ?k"
    by (rule le_two_power_ceillog2)
  have numel: "numel x = ?n * ?d"
    using ne by (simp add: numel_def prod_list_butlast_last)
  then have r1: "reshape_rows_view x ?d = Inr ?x1"
    using pos by (simp add: reshape_rows_view_def)
  have x1: "rows_at st ?x1 = ?R"
    by (simp add: rows_at_def)
  have lenP: "length row = 2 ^ ?k" if "row \<in> set ?P" for row
    using that le lenR by auto
  have lenL: "length row = 2 ^ ?k" if "row \<in> set ?L" for row
    using that by (auto simp add: mat_vec_def)
  have lenS: "length row = 2 ^ ?k" if "row \<in> set ?S" for row
    using that lenL by auto
  have lenW: "length row = 2 ^ ?k" if "row \<in> set (sylvester ?k)" for row
    using that by (rule length_row_sylvester)
  have idP: "map (take (2 ^ ?k)) ?P = ?P"
    by (rule map_take_all) (rule lenP)
  have idL: "map (take (2 ^ ?k)) ?L = ?L"
    by (rule map_take_all) (rule lenL)
  have idW: "map (take (2 ^ ?k)) (sylvester ?k) = sylvester ?k"
    by (rule map_take_all) (rule lenW)
  obtain x2 st1 where
    step1: "(if ?d \<noteq> 2 ^ ?k then pad_alloc st ?x1 (2 ^ ?k - ?d) else (?x1, st)) = (x2, st1)"
    by (cases "if ?d \<noteq> 2 ^ ?k then pad_alloc st ?x1 (2 ^ ?k - ?d) else (?x1, st)") simp
  have x2: "rows_at st1 x2 = ?P \<and> tshape x2 = [?n, 2 ^ ?k] \<and> storage x2 < next_addr st1"
  proof (cases "?d = 2 ^ ?k")
    case True
    then have "x2 = ?x1" and "st1 = st"
      using step1 by simp_all
    moreover have "?P = ?R"
      using True by simp
    ultimately show ?thesis
      using True x1 alloc by simp
  next
    case False
    then have eq: "pad_alloc st ?x1 (2 ^ ?k - ?d) = (x2, st1)"
      using step1 by simp
    then have c: "cells st1 (storage x2) = concat ?P"
      and sh: "tshape x2 = [?n, 2 ^ ?k]" and rs: "row_stride x2 = 2 ^ ?k"
      and al: "storage x2 < next_addr st1"
      using le by (auto simp add: pad_alloc_def alloc_def x1)
    have "rows_at st1 x2 = map (take (last (tshape x2))) ?P"
      using c lenP
    proof (rule rows_at_contiguous)
      show "prod_list (butlast (tshape x2)) = length ?P"
        by (simp add: sh nR)
      show "last (tshape x2) \<le> 2 ^ ?k"
        by (simp add: sh)
      show "row_stride x2 = 2 ^ ?k"
        by (rule rs)
    qed
    also have "last (tshape x2) = 2 ^ ?k"
      by (simp add: sh)
    finally have "rows_at st1 x2 = map (take (2 ^ ?k)) ?P" .
    also have "\<dots> = ?P"
      by (rule idP)
    finally show ?thesis
      using sh al by simp
  qed
  obtain w st2 where step2: "tensor_of_matrix st1 (sylvester ?k) = (w, st2)"
    by (cases "tensor_of_matrix st1 (sylvester ?k)") simp
  then have cw: "cells st2 (storage w) = concat (sylvester ?k)"
    and shw: "tshape w = [2 ^ ?k, 2 ^ ?k]" and rsw: "row_stride w = 2 ^ ?k"
    and f12: "frame st1 st2"
    by (auto simp add: tensor_of_matrix_def alloc_def frame_def)
  have "rows_at st2 w = map (take (last (tshape w))) (sylvester ?k)"
    using cw lenW
  proof (rule rows_at_contiguous)
    show "prod_list (butlast (tshape w)) = length (sylvester ?k)"
      by (simp add: shw)
    show "last (tshape w) \<le> 2 ^ ?k"
      by (simp add: shw)
    show "row_stride w = 2 ^ ?k"
      by (rule rsw)
  qed
  also have "last (tshape w) = 2 ^ ?k"
    by (simp add: shw)
  finally have "rows_at st2 w = map (take (2 ^ ?k)) (sylvester ?k)" .
  also have "\<dots> = sylvester ?k"
    by (rule idW)
  finally have w: "rows_at st2 w = sylvester ?k" .
  have x2': "rows_at st2 x2 = ?P"
    using x2 rows_at_frame [OF f12] by simp
  have "last (tshape x2) = last (tshape w)"
    using x2 by (simp add: shw)
  then obtain out st3 where step3: "linear_alloc st2 x2 w = (Inr out, st3)"
    by (simp add: linear_alloc_def alloc_def)
  then have co: "cells st3 (storage out) = concat ?L"
    and sho: "tshape out = [?n, 2 ^ ?k]" and rso: "row_stride out = 2 ^ ?k"
    using x2 by (auto simp add: linear_alloc_def alloc_def w x2' shw)
  have "rows_at st3 out = map (take (last (tshape out))) ?L"
    using co lenL
  proof (rule rows_at_contiguous)
    show "prod_list (butlast (tshape out)) = length ?L"
      by (simp add: sho nR)
    show "last (tshape out) \<le> 2 ^ ?k"
      by (simp add: sho)
    show "row_stride out = 2 ^ ?k"
      by (rule rso)
  qed
  also have "last (tshape out) = 2 ^ ?k"
    by (simp add: sho)
  finally have "rows_at st3 out = map (take (2 ^ ?k)) ?L" .
  also have "\<dots> = ?L"
    by (rule idL)
  finally have out: "rows_at st3 out = ?L" .
  obtain out2 st4 where step4: "mul_scalar_alloc st3 out scale = (out2, st4)"
    by (cases "mul_scalar_alloc st3 out scale") simp
  then have c2: "cells st4 (storage out2) = concat ?S"
    and sh2: "tshape out2 = [?n, 2 ^ ?k]" and rs2: "row_stride out2 = 2 ^ ?k"
    by (auto simp add: mul_scalar_alloc_def alloc_def out sho)
  let ?r = "(slice_last_view out2 ?d)\<lparr>tshape := tshape x\<rparr>"
  have rb: "reshape_back_view (slice_last_view out2 ?d) (tshape x) = Inr ?r"
    using numel le ne
    by (simp add: reshape_back_view_def slice_last_view_def sh2 numel_def
        prod_list_butlast_last min_absorb1)
  have "rows_at st4 ?r = map (take (last (tshape ?r))) ?S"
  proof (rule rows_at_contiguous [where m = "2 ^ ?k"])
    show "cells st4 (storage ?r) = concat ?S"
      using c2 by (simp add: slice_last_view_def)
    show "length row = 2 ^ ?k" if "row \<in> set ?S" for row
      using that by (rule lenS)
    show "prod_list (butlast (tshape ?r)) = length ?S"
      by (simp add: nR)
    show "last (tshape ?r) \<le> 2 ^ ?k"
      using le by simp
    show "row_stride ?r = 2 ^ ?k"
      using rs2 by (simp add: slice_last_view_def)
  qed
  then have rows_r: "rows_at st4 ?r = map (take ?d) ?S"
    by simp
  have call: "hadamard_transform_ref_store (Some scipy_hadamard) st x scale = (Inr ?r, st4)"
    using ne pos
    by (simp add: hadamard_transform_ref_store_def r1 Let_def step1 step2 step3 step4 rb)
  have wf: "length (data (read st x)) mod ?d = 0"
    using lenR by (simp add: read_def length_concat_rows [where n = ?d])
  have rows: "rows_of ?d (concat ?R) = ?R"
    using pos lenR by (rule rows_of_concat)
  have m: "map (ref_row ?k scale) ?R = map (take ?d) ?S"
    using lenR by (auto simp add: ref_row_def)
  have "hadamard_transform_ref (Some scipy_hadamard) (read st x) scale =
        Inr \<lparr>shape = tshape x,
             data = concat (map (ref_row ?k scale) (rows_of ?d (concat ?R)))\<rparr>"
    using ne pos wf by (simp add: ref_value read_def)
  then have "hadamard_transform_ref (Some scipy_hadamard) (read st x) scale =
             Inr \<lparr>shape = tshape x, data = concat (map (take ?d) ?S)\<rparr>"
    by (simp only: rows m)
  also have "\<lparr>shape = tshape x, data = concat (map (take ?d) ?S)\<rparr> = read st4 ?r"
    by (simp add: read_def rows_r)
  finally show ?thesis
    using call by blast
qed

text \<open>
  The oracle over the store, called on an allocated tensor with a positive last
  dimension: it returns a tensor, every storage allocated before the call keeps its
  contents, and the storage of the result was allocated during the call.
\<close>

lemma ref_store_leaves_input:
  assumes "storage x < next_addr st" and "tshape x \<noteq> []" and "0 < last (tshape x)"
  shows "\<exists>r st'. hadamard_transform_ref_store (Some scipy_hadamard) st x scale = (Inr r, st') \<and>
           (\<forall>a<next_addr st. cells st' a = cells st a) \<and>
           read st' x = read st x \<and>
           next_addr st \<le> storage r \<and> storage r < next_addr st' \<and>
           storage r \<noteq> storage x"
proof -
  obtain r st' where
    call: "hadamard_transform_ref_store (Some scipy_hadamard) st x scale = (Inr r, st')"
    using ref_store_returns [OF assms(2,3)] by blast
  have fr: "frame st st'"
    using call by (rule ref_store_frame(1))
  have fresh: "next_addr st \<le> storage r \<and> storage r < next_addr st'"
    using call by (rule ref_store_frame(2)) simp
  have "\<forall>a<next_addr st. cells st' a = cells st a"
    using fr by (simp add: frame_def)
  moreover have "read st' x = read st x"
    using fr assms(1) by (rule read_frame)
  moreover have "storage r \<noteq> storage x"
    using fresh assms(1) by simp
  ultimately show ?thesis
    using call fresh by blast
qed

section \<open>Linearity of the fast path\<close>

lemma nth_lin:
  "i < length xs \<Longrightarrow> i < length ys \<Longrightarrow> lin a xs b ys ! i = a * xs ! i + b * ys ! i"
  by (simp add: lin_def)

lemma vadd_lin:
  "vadd (lin a u1 b v1) (lin a u2 b v2) = lin a (vadd u1 u2) b (vadd v1 v2)"
proof (rule nth_equalityI)
  show "length (vadd (lin a u1 b v1) (lin a u2 b v2)) =
        length (lin a (vadd u1 u2) b (vadd v1 v2))"
    by (simp add: vadd_def lin_def)
next
  fix i
  assume "i < length (vadd (lin a u1 b v1) (lin a u2 b v2))"
  then have "i < length u1" "i < length v1" "i < length u2" "i < length v2"
    by (simp_all add: vadd_def lin_def)
  then show "vadd (lin a u1 b v1) (lin a u2 b v2) ! i = lin a (vadd u1 u2) b (vadd v1 v2) ! i"
    by (simp add: vadd_def lin_def algebra_simps)
qed

lemma vsub_lin:
  "vsub (lin a u1 b v1) (lin a u2 b v2) = lin a (vsub u1 u2) b (vsub v1 v2)"
proof (rule nth_equalityI)
  show "length (vsub (lin a u1 b v1) (lin a u2 b v2)) =
        length (lin a (vsub u1 u2) b (vsub v1 v2))"
    by (simp add: vsub_def lin_def)
next
  fix i
  assume "i < length (vsub (lin a u1 b v1) (lin a u2 b v2))"
  then have "i < length u1" "i < length v1" "i < length u2" "i < length v2"
    by (simp_all add: vsub_def lin_def)
  then show "vsub (lin a u1 b v1) (lin a u2 b v2) ! i = lin a (vsub u1 u2) b (vsub v1 v2) ! i"
    by (simp add: vsub_def lin_def algebra_simps)
qed

lemma butterfly_block_lin:
  assumes "length u = length v"
  shows "butterfly_block h (lin a u b v) = lin a (butterfly_block h u) b (butterfly_block h v)"
proof -
  have "length (vadd (take h u) (drop h u)) = length (vadd (take h v) (drop h v))"
    using assms by (simp add: vadd_def)
  then show ?thesis
    by (simp add: butterfly_block_def take_lin drop_lin vadd_lin vsub_lin lin_append)
qed

lemma length_butterfly_block_cong:
  "length u = length v \<Longrightarrow> length (butterfly_block h u) = length (butterfly_block h v)"
  by (simp add: butterfly_block_def vadd_def vsub_def)

lemma butterfly_stage_0: "butterfly_stage 0 buf = []"
  by (subst butterfly_stage.simps) simp

lemma length_butterfly_stage_cong:
  "length x = length y \<Longrightarrow> length (butterfly_stage h x) = length (butterfly_stage h y)"
proof (induction h x arbitrary: y rule: butterfly_stage.induct)
  case (1 h buf)
  show ?case
  proof (cases "h = 0 \<or> buf = []")
    case True
    then show ?thesis
      using "1.prems" by (auto simp add: butterfly_stage_0)
  next
    case False
    then have h: "0 < h" and buf: "buf \<noteq> []" and y: "y \<noteq> []"
      using "1.prems" by auto
    have IH: "length (butterfly_stage h (drop (2 * h) buf)) =
              length (butterfly_stage h (drop (2 * h) y))"
      using False "1.prems" by (intro "1.IH") simp_all
    have "length (butterfly_block h (take (2 * h) buf)) =
          length (butterfly_block h (take (2 * h) y))"
      using "1.prems" by (intro length_butterfly_block_cong) simp
    then show ?thesis
      using IH by (simp add: butterfly_stage_step [OF h buf] butterfly_stage_step [OF h y])
  qed
qed

lemma butterfly_stage_lin:
  "length x = length y \<Longrightarrow>
   butterfly_stage h (lin a x b y) = lin a (butterfly_stage h x) b (butterfly_stage h y)"
proof (induction h x arbitrary: y rule: butterfly_stage.induct)
  case (1 h buf)
  show ?case
  proof (cases "h = 0 \<or> buf = []")
    case True
    then show ?thesis
      using "1.prems" by (auto simp add: butterfly_stage_0 lin_def)
  next
    case False
    then have h: "0 < h" and buf: "buf \<noteq> []" and y: "y \<noteq> []"
      using "1.prems" by auto
    have l: "lin a buf b y \<noteq> []"
      using buf y by (cases buf; cases y) (simp_all add: lin_def)
    have IH: "butterfly_stage h (lin a (drop (2 * h) buf) b (drop (2 * h) y)) =
              lin a (butterfly_stage h (drop (2 * h) buf)) b (butterfly_stage h (drop (2 * h) y))"
      using False "1.prems" by (intro "1.IH") simp_all
    have t: "length (take (2 * h) buf) = length (take (2 * h) y)"
      using "1.prems" by simp
    have lb: "length (butterfly_block h (take (2 * h) buf)) =
              length (butterfly_block h (take (2 * h) y))"
      using t by (rule length_butterfly_block_cong)
    show ?thesis
      by (simp add: butterfly_stage_step [OF h l] butterfly_stage_step [OF h buf]
          butterfly_stage_step [OF h y] take_lin drop_lin butterfly_block_lin [OF t] IH
          lin_append [OF lb])
  qed
qed

lemma stages_lin:
  "length x = length y \<Longrightarrow>
   fold (\<lambda>s b. butterfly_stage (2 ^ s) b) [0..<j] (lin a x b y) =
     lin a (fold (\<lambda>s b. butterfly_stage (2 ^ s) b) [0..<j] x) b
           (fold (\<lambda>s b. butterfly_stage (2 ^ s) b) [0..<j] y) \<and>
   length (fold (\<lambda>s b. butterfly_stage (2 ^ s) b) [0..<j] x) =
     length (fold (\<lambda>s b. butterfly_stage (2 ^ s) b) [0..<j] y)"
proof (induction j)
  case 0
  then show ?case by simp
next
  case (Suc j)
  then have IH: "fold (\<lambda>s b. butterfly_stage (2 ^ s) b) [0..<j] (lin a x b y) =
       lin a (fold (\<lambda>s b. butterfly_stage (2 ^ s) b) [0..<j] x) b
             (fold (\<lambda>s b. butterfly_stage (2 ^ s) b) [0..<j] y)"
    and len: "length (fold (\<lambda>s b. butterfly_stage (2 ^ s) b) [0..<j] x) =
              length (fold (\<lambda>s b. butterfly_stage (2 ^ s) b) [0..<j] y)"
    by simp_all
  show ?case
    by (simp only: stages_Suc IH butterfly_stage_lin [OF len]
        length_butterfly_stage_cong [OF len])
qed

lemma transform_pow2_lin:
  "length x = length y \<Longrightarrow>
   transform_pow2 (lin a x b y) = lin a (transform_pow2 x) b (transform_pow2 y)"
  by (simp add: transform_pow2_def stages_lin)

lemma length_transform_pow2:
  "length buf = 2 ^ k \<Longrightarrow> length (transform_pow2 buf) = 2 ^ k"
  by (simp add: transform_pow2_sylvester mat_vec_def)

lemma lane_index: "i < n \<Longrightarrow> j < base \<Longrightarrow> i * base + j < base * (n::nat)"
proof -
  assume i: "i < n" and j: "j < base"
  have "i * base + j < i * base + base"
    using j by simp
  also have "\<dots> = Suc i * base"
    by simp
  also have "\<dots> \<le> n * base"
    using i by (intro mult_le_mono1) simp
  finally show ?thesis
    by (simp add: mult.commute)
qed

lemma lane_lin:
  assumes "length x = base * n" and "length y = base * n" and "j < base"
  shows "lane base n (lin a x b y) j = lin a (lane base n x j) b (lane base n y j)"
proof -
  have "lin a x b y ! (i * base + j) = a * x ! (i * base + j) + b * y ! (i * base + j)"
    if "i < n" for i
    using lane_index [OF that assms(3)] assms(1,2) by (intro nth_lin) simp_all
  then have "lane base n (lin a x b y) j =
             map (\<lambda>i. a * x ! (i * base + j) + b * y ! (i * base + j)) [0..<n]"
    by (simp add: lane_def)
  also have "\<dots> = lin a (lane base n x j) b (lane base n y j)"
    by (simp add: lane_def lin_map)
  finally show ?thesis .
qed

lemma concat_lin_map:
  "(\<And>i. i \<in> set js \<Longrightarrow> length (f i) = length (g i)) \<Longrightarrow>
   concat (map (\<lambda>i. lin a (f i) b (g i)) js) = lin a (concat (map f js)) b (concat (map g js))"
proof (induction js)
  case Nil
  show ?case by (simp add: lin_def)
next
  case (Cons i js)
  have "length (f i) = length (g i)"
    using Cons.prems by simp
  moreover have "concat (map (\<lambda>i. lin a (f i) b (g i)) js) =
                 lin a (concat (map f js)) b (concat (map g js))"
    using Cons.prems by (intro Cons.IH) simp
  ultimately show ?case
    by (simp add: lin_append)
qed

text \<open>
  The composer on a buffer of length \<open>base * 2 ^ k\<close>: block \<open>i\<close> collects element \<open>i\<close> of
  every transformed lane.
\<close>

lemma transform_blocks:
  assumes "0 < base" and "length x = base * 2 ^ k"
  shows "transform M base x =
         concat (map (\<lambda>i. (if base = 1 then (\<lambda>blk. blk) else transform_base M base)
                            (map (\<lambda>j. transform_pow2 (lane base (2 ^ k) x j) ! i) [0..<base]))
                   [0..<2 ^ k])"
proof -
  have n: "length x div base = 2 ^ k"
    using assms by simp
  have lanes:
    "map (\<lambda>j. map (\<lambda>j. transform_pow2 (lane base (2 ^ k) x j)) [0..<base] ! j ! i) [0..<base] =
     map (\<lambda>j. transform_pow2 (lane base (2 ^ k) x j) ! i) [0..<base]" for i
    by (rule map_cong) simp_all
  show ?thesis
    unfolding transform_def Let_def n lanes
    by (simp add: comp_def)
qed

lemma length_lane: "length (lane base n x j) = n"
  by (simp add: lane_def)

lemma transform_lin:
  assumes "0 < base" and "length x = base * 2 ^ k" and "length y = base * 2 ^ k"
  shows "transform M base (lin a x b y) = lin a (transform M base x) b (transform M base y)"
proof -
  let ?T = "if base = 1 then (\<lambda>blk. blk) else transform_base M base"
  let ?blk = "\<lambda>z i. map (\<lambda>j. transform_pow2 (lane base (2 ^ k) z j) ! i) [0..<base]"
  have lz: "length (lin a x b y) = base * 2 ^ k"
    using assms by simp
  have blk: "?blk (lin a x b y) i = lin a (?blk x i) b (?blk y i)" if "i < 2 ^ k" for i
  proof -
    have "transform_pow2 (lane base (2 ^ k) (lin a x b y) j) ! i =
          a * transform_pow2 (lane base (2 ^ k) x j) ! i +
          b * transform_pow2 (lane base (2 ^ k) y j) ! i" if "j < base" for j
    proof -
      have "transform_pow2 (lane base (2 ^ k) (lin a x b y) j) =
            lin a (transform_pow2 (lane base (2 ^ k) x j)) b (transform_pow2 (lane base (2 ^ k) y j))"
        by (simp add: lane_lin [OF assms(2,3) that] transform_pow2_lin length_lane)
      moreover have "i < length (transform_pow2 (lane base (2 ^ k) x j))"
        using \<open>i < 2 ^ k\<close> by (simp add: length_transform_pow2 length_lane)
      moreover have "i < length (transform_pow2 (lane base (2 ^ k) y j))"
        using \<open>i < 2 ^ k\<close> by (simp add: length_transform_pow2 length_lane)
      ultimately show ?thesis
        by (simp add: nth_lin)
    qed
    then have "?blk (lin a x b y) i =
               map (\<lambda>j. a * transform_pow2 (lane base (2 ^ k) x j) ! i +
                         b * transform_pow2 (lane base (2 ^ k) y j) ! i) [0..<base]"
      by simp
    then show ?thesis
      by (simp only: lin_map)
  qed
  have T: "?T (lin a u b v) = lin a (?T u) b (?T v)" if "length u = length v" for u v
    using that by (simp add: transform_base_def mat_vec_lin)
  have lT: "length (?T (?blk x i)) = length (?T (?blk y i))" for i
    by (simp add: transform_base_def mat_vec_def)
  have "transform M base (lin a x b y) =
        concat (map (\<lambda>i. ?T (?blk (lin a x b y) i)) [0..<2 ^ k])"
    using assms(1) lz by (rule transform_blocks)
  also have "\<dots> = concat (map (\<lambda>i. lin a (?T (?blk x i)) b (?T (?blk y i))) [0..<2 ^ k])"
  proof -
    have step: "?T (?blk (lin a x b y) i) = lin a (?T (?blk x i)) b (?T (?blk y i))"
      if "i \<in> set [0..<2 ^ k]" for i
    proof -
      have "i < 2 ^ k"
        using that by simp
      then have "?T (?blk (lin a x b y) i) = ?T (lin a (?blk x i) b (?blk y i))"
        by (simp only: blk)
      also have "\<dots> = lin a (?T (?blk x i)) b (?T (?blk y i))"
        by (rule T) simp
      finally show ?thesis .
    qed
    show ?thesis
      by (rule arg_cong [where f = concat], rule map_cong [OF refl], rule step)
  qed
  also have "\<dots> = lin a (concat (map (\<lambda>i. ?T (?blk x i)) [0..<2 ^ k])) b
                        (concat (map (\<lambda>i. ?T (?blk y i)) [0..<2 ^ k]))"
    by (rule concat_lin_map) (rule lT)
  also have "concat (map (\<lambda>i. ?T (?blk x i)) [0..<2 ^ k]) = transform M base x"
    using assms(1,2) by (rule transform_blocks [symmetric])
  also have "concat (map (\<lambda>i. ?T (?blk y i)) [0..<2 ^ k]) = transform M base y"
    using assms(1,3) by (rule transform_blocks [symmetric])
  finally show ?thesis .
qed

lemma length_transform_cong:
  assumes "0 < base" and "length x = base * 2 ^ k" and "length y = base * 2 ^ k"
  shows "length (transform M base x) = length (transform M base y)"
proof -
  have "length (transform M base z) =
        (\<Sum>i\<leftarrow>[0..<2 ^ k]. if base = 1 then 1 else length (M base))"
    if "length z = base * 2 ^ k" for z
    using assms(1) that
    by (simp add: transform_blocks [OF assms(1) that] length_concat comp_def transform_base_def
        mat_vec_def cong: map_cong)
  then show ?thesis
    using assms(2,3) by simp
qed

lemma find_k_Some: "find_k n base len k0 = Some k \<Longrightarrow> len \<le> base * 2 ^ k"
  by (induction n arbitrary: k0) (auto split: if_splits)

lemma find_k_succeeds:
  "len \<le> base * 2 ^ (k0 + n) \<Longrightarrow> \<exists>k. find_k n base len k0 = Some k"
proof (induction n arbitrary: k0)
  case 0
  then show ?case by simp
next
  case (Suc n)
  have "\<exists>k. find_k n base len (Suc k0) = Some k"
    using Suc.prems by (intro Suc.IH) simp
  then show ?case
    by simp
qed

lemma resolve_Inr:
  assumes "resolve k_max len base = Inr (p, q)"
  shows "\<exists>k. p = base * 2 ^ k \<and> q = p - len \<and> 0 < len \<and> len \<le> p \<and> 0 < base"
proof -
  from assms obtain k where k: "find_k k_max base len 0 = Some k"
    and p: "p = base * 2 ^ k" and q: "q = p - len" and len: "0 < len"
    by (auto simp add: resolve_def split: if_splits option.splits)
  have le: "len \<le> base * 2 ^ k"
    using k by (rule find_k_Some)
  then have "0 < base"
    using len by (cases base) simp_all
  then show ?thesis
    using p q len le by blast
qed

lemma resolve_succeeds:
  assumes "0 < len" and "len \<le> base * 2 ^ k_max"
  shows "\<exists>p q. resolve k_max len base = Inr (p, q)"
proof -
  obtain k where "find_k k_max base len 0 = Some k"
    using find_k_succeeds [of len base 0 k_max] assms(2) by auto
  then show ?thesis
    using assms(1) by (simp add: resolve_def)
qed

lemma concat_rows_lin_gen:
  assumes g: "\<And>r1 r2. length r1 = d \<Longrightarrow> length r2 = d \<Longrightarrow>
                g (lin a r1 b r2) = lin a (g r1) b (g r2) \<and> length (g r1) = length (g r2)"
    and d: "0 < d"
  shows "length xs = n * d \<Longrightarrow> length ys = n * d \<Longrightarrow>
         concat (map g (rows_of d (lin a xs b ys))) =
         lin a (concat (map g (rows_of d xs))) b (concat (map g (rows_of d ys)))"
proof (induction n arbitrary: xs ys)
  case 0
  then show ?case
    by (simp add: lin_def)
next
  case (Suc n)
  have xs: "xs \<noteq> []" and ys: "ys \<noteq> []"
    using Suc.prems d by auto
  have l: "lin a xs b ys \<noteq> []"
    using xs ys by (cases xs; cases ys) (simp_all add: lin_def)
  have IH: "concat (map g (rows_of d (lin a (drop d xs) b (drop d ys)))) =
            lin a (concat (map g (rows_of d (drop d xs)))) b
                  (concat (map g (rows_of d (drop d ys))))"
    using Suc.prems by (intro Suc.IH) simp_all
  have t1: "length (take d xs) = d" and t2: "length (take d ys) = d"
    using Suc.prems by simp_all
  have gl: "g (lin a (take d xs) b (take d ys)) = lin a (g (take d xs)) b (g (take d ys))"
    and ll: "length (g (take d xs)) = length (g (take d ys))"
    using g [OF t1 t2] by simp_all
  show ?case
    using d xs ys l
    by (simp add: rows_of_Cons take_lin drop_lin gl IH lin_append [OF ll])
qed

lemma apply_spec_row_lin:
  assumes "0 < base" and "length r1 = L" and "length r2 = L" and "L \<le> base * 2 ^ k"
  shows "take L (map (\<lambda>v. v * scale)
           (transform M base (lin a r1 b r2 @ replicate (base * 2 ^ k - L) 0))) =
         lin a (take L (map (\<lambda>v. v * scale)
                  (transform M base (r1 @ replicate (base * 2 ^ k - L) 0)))) b
               (take L (map (\<lambda>v. v * scale)
                  (transform M base (r2 @ replicate (base * 2 ^ k - L) 0)))) \<and>
         length (take L (map (\<lambda>v. v * scale)
                  (transform M base (r1 @ replicate (base * 2 ^ k - L) 0)))) =
         length (take L (map (\<lambda>v. v * scale)
                  (transform M base (r2 @ replicate (base * 2 ^ k - L) 0))))"
proof -
  let ?q = "base * 2 ^ k - L"
  let ?p1 = "r1 @ replicate ?q 0" and ?p2 = "r2 @ replicate ?q 0"
  have l1: "length ?p1 = base * 2 ^ k" and l2: "length ?p2 = base * 2 ^ k"
    using assms(2,3,4) by simp_all
  have "lin a r1 b r2 @ replicate ?q 0 = lin a ?p1 b ?p2"
    using assms(2,3) by (simp add: lin_append lin_replicate_0)
  then have "transform M base (lin a r1 b r2 @ replicate ?q 0) =
             lin a (transform M base ?p1) b (transform M base ?p2)"
    by (simp only: transform_lin [OF assms(1) l1 l2])
  moreover have "length (transform M base ?p1) = length (transform M base ?p2)"
    using assms(1) l1 l2 by (rule length_transform_cong)
  ultimately show ?thesis
    by (simp add: lin_scale take_lin)
qed

lemma apply_spec_lin:
  assumes "wf_tensor x" and "wf_tensor y" and "shape x = shape y"
  shows "apply_spec k_max M base (axpby a x b y) scale inpl =
         (case apply_spec k_max M base x scale inpl of
            Inl e \<Rightarrow> Inl e
          | Inr rx \<Rightarrow>
              (case apply_spec k_max M base y scale inpl of
                 Inl e \<Rightarrow> Inl e
               | Inr ry \<Rightarrow> Inr (axpby a rx b ry)))"
proof (cases "shape x = []")
  case True
  then show ?thesis
    using assms(3) by (simp add: apply_spec_def axpby_def)
next
  case ne: False
  let ?L = "last (shape x)"
  show ?thesis
  proof (cases "resolve k_max ?L base")
    case (Inl e)
    then show ?thesis
      using ne assms(3) by (simp add: apply_spec_def axpby_def)
  next
    case (Inr pq)
    obtain p q where pq: "pq = (p, q)"
      by (cases pq)
    obtain k where p: "p = base * 2 ^ k" and q: "q = p - ?L" and L: "0 < ?L"
      and le: "?L \<le> p" and base: "0 < base"
      using resolve_Inr [of k_max ?L base p q] Inr pq by auto
    show ?thesis
    proof (cases "inpl \<and> 0 < q")
      case True
      then show ?thesis
        using ne assms(3) Inr pq by (simp add: apply_spec_def axpby_def)
    next
      case False
      let ?g = "\<lambda>row. take ?L (map (\<lambda>v. v * scale) (transform M base (row @ replicate q 0)))"
      have len: "length (data x) = length (data y)"
        using assms by (simp add: wf_tensor_def)
      have m: "length (data x) mod ?L = 0"
        using assms(1) ne by (rule wf_tensor_mod)
      have g: "?g (lin a r1 b r2) = lin a (?g r1) b (?g r2) \<and> length (?g r1) = length (?g r2)"
        if "length r1 = ?L" and "length r2 = ?L" for r1 r2
        using apply_spec_row_lin [OF base that, of k scale M a b] le
        unfolding p q by simp
      obtain n where n: "length (data x) = n * ?L"
        using m by (metis mod_eq_0_iff_dvd dvd_def mult.commute)
      have "concat (map ?g (rows_of ?L (lin a (data x) b (data y)))) =
            lin a (concat (map ?g (rows_of ?L (data x)))) b (concat (map ?g (rows_of ?L (data y))))"
      proof (rule concat_rows_lin_gen [where n = n])
        show "?g (lin a r1 b r2) = lin a (?g r1) b (?g r2) \<and> length (?g r1) = length (?g r2)"
          if "length r1 = ?L" and "length r2 = ?L" for r1 r2
          using that by (rule g)
        show "0 < ?L"
          by (rule L)
        show "length (data x) = n * ?L"
          by (rule n)
        show "length (data y) = n * ?L"
          using len n by simp
      qed
      then show ?thesis
        using ne assms(3) Inr pq False by (simp add: apply_spec_def axpby_def Let_def)
    qed
  qed
qed

lemma apply_spec_succeeds:
  assumes "shape x \<noteq> []" and "0 < last (shape x)" and "last (shape x) \<le> base * 2 ^ k_max"
  shows "\<exists>r. apply_spec k_max M base x scale False = Inr r"
proof -
  obtain p q where "resolve k_max (last (shape x)) base = Inr (p, q)"
    using resolve_succeeds [OF assms(2,3)] by blast
  then show ?thesis
    using assms(1) by (simp add: apply_spec_def Let_def)
qed

text \<open>
  Claim C5.  For scalars \<open>a\<close>, \<open>b\<close> and well-formed tensors \<open>x\<close>, \<open>y\<close> of one shape with
  a positive last dimension, at any fixed scale: the oracle succeeds on \<open>x\<close>, on \<open>y\<close>
  and on \<open>a * x + b * y\<close>, and its output on the combination is the same combination
  of its outputs on \<open>x\<close> and \<open>y\<close>.  The same holds for each of the five public
  functions over the fast path as the spec describes it, for every base matrix: a call
  on the combination fails exactly when the call on \<open>x\<close> or on \<open>y\<close> fails, and otherwise
  returns the combination of the two outputs; out of place, with rows no longer than
  the largest supported padded size, all three calls succeed.
\<close>

theorem transform_linear:
  assumes "wf_tensor x" and "wf_tensor y" and "shape x = shape y"
    and "shape x \<noteq> []" and "0 < last (shape x)"
  shows "(\<exists>rx ry. hadamard_transform_ref (Some scipy_hadamard) x scale = Inr rx \<and>
                  hadamard_transform_ref (Some scipy_hadamard) y scale = Inr ry \<and>
                  hadamard_transform_ref (Some scipy_hadamard) (axpby a x b y) scale =
                    Inr (axpby a rx b ry)) \<and>
         (\<forall>(f, base)\<in>set variants.
            f (spec_cuda k_max M) (axpby a x b y) scale inpl =
              (case f (spec_cuda k_max M) x scale inpl of
                 Inl e \<Rightarrow> Inl e
               | Inr rx \<Rightarrow>
                   (case f (spec_cuda k_max M) y scale inpl of
                      Inl e \<Rightarrow> Inl e
                    | Inr ry \<Rightarrow> Inr (axpby a rx b ry))) \<and>
            (last (shape x) \<le> base * 2 ^ k_max \<and> \<not> inpl \<longrightarrow>
               (\<exists>rx ry. f (spec_cuda k_max M) x scale inpl = Inr rx \<and>
                        f (spec_cuda k_max M) y scale inpl = Inr ry \<and>
                        f (spec_cuda k_max M) (axpby a x b y) scale inpl =
                          Inr (axpby a rx b ry))))"
proof -
  have ref_part: "\<exists>rx ry. hadamard_transform_ref (Some scipy_hadamard) x scale = Inr rx \<and>
                  hadamard_transform_ref (Some scipy_hadamard) y scale = Inr ry \<and>
                  hadamard_transform_ref (Some scipy_hadamard) (axpby a x b y) scale =
                    Inr (axpby a rx b ry)"
    using assms by (rule ref_linear)
  have fast_part: "f (spec_cuda k_max M) (axpby a x b y) scale inpl =
              (case f (spec_cuda k_max M) x scale inpl of
                 Inl e \<Rightarrow> Inl e
               | Inr rx \<Rightarrow>
                   (case f (spec_cuda k_max M) y scale inpl of
                      Inl e \<Rightarrow> Inl e
                    | Inr ry \<Rightarrow> Inr (axpby a rx b ry))) \<and>
            (last (shape x) \<le> base * 2 ^ k_max \<and> \<not> inpl \<longrightarrow>
               (\<exists>rx ry. f (spec_cuda k_max M) x scale inpl = Inr rx \<and>
                        f (spec_cuda k_max M) y scale inpl = Inr ry \<and>
                        f (spec_cuda k_max M) (axpby a x b y) scale inpl =
                          Inr (axpby a rx b ry)))"
    if "(f, base) \<in> set variants" for f base
  proof -
    have f: "f (spec_cuda k_max M) = apply_spec k_max M base"
      using that by (rule variants_spec_cuda)
    have eq: "apply_spec k_max M base (axpby a x b y) scale inpl =
              (case apply_spec k_max M base x scale inpl of
                 Inl e \<Rightarrow> Inl e
               | Inr rx \<Rightarrow>
                   (case apply_spec k_max M base y scale inpl of
                      Inl e \<Rightarrow> Inl e
                    | Inr ry \<Rightarrow> Inr (axpby a rx b ry)))"
      using assms(1,2,3) by (rule apply_spec_lin)
    have ok: "\<exists>rx ry. apply_spec k_max M base x scale inpl = Inr rx \<and>
                  apply_spec k_max M base y scale inpl = Inr ry \<and>
                  apply_spec k_max M base (axpby a x b y) scale inpl = Inr (axpby a rx b ry)"
      if le: "last (shape x) \<le> base * 2 ^ k_max" and out: "\<not> inpl"
    proof -
      obtain rx where rx: "apply_spec k_max M base x scale False = Inr rx"
        using apply_spec_succeeds [OF assms(4,5) le] by blast
      obtain ry where ry: "apply_spec k_max M base y scale False = Inr ry"
        using apply_spec_succeeds [of y base k_max M scale] assms(3,4,5) le by auto
      show ?thesis
        using eq rx ry out by simp
    qed
    show ?thesis
      unfolding f using eq ok by blast
  qed
  show ?thesis
    using ref_part fast_part by blast
qed

theorem transform_linear_witness:
  "(\<exists>rx ry. hadamard_transform_ref (Some scipy_hadamard) \<lparr>shape = [3], data = [1, 2, 3]\<rparr> 2 =
              Inr rx \<and>
            hadamard_transform_ref (Some scipy_hadamard) \<lparr>shape = [3], data = [0, 1, 0]\<rparr> 2 =
              Inr ry \<and>
            hadamard_transform_ref (Some scipy_hadamard)
              (axpby 5 \<lparr>shape = [3], data = [1, 2, 3]\<rparr> 7 \<lparr>shape = [3], data = [0, 1, 0]\<rparr>) 2 =
              Inr (axpby 5 rx 7 ry)) \<and>
   (\<exists>rx ry. hadamard_transform_12N (spec_cuda 15 (\<lambda>b. paley_12))
              \<lparr>shape = [3], data = [1, 2, 3]\<rparr> 2 False = Inr rx \<and>
            hadamard_transform_12N (spec_cuda 15 (\<lambda>b. paley_12))
              \<lparr>shape = [3], data = [0, 1, 0]\<rparr> 2 False = Inr ry \<and>
            hadamard_transform_12N (spec_cuda 15 (\<lambda>b. paley_12))
              (axpby 5 \<lparr>shape = [3], data = [1, 2, 3]\<rparr> 7 \<lparr>shape = [3], data = [0, 1, 0]\<rparr>)
              2 False = Inr (axpby 5 rx 7 ry))"
proof -
  let ?x = "\<lparr>shape = [3], data = [1, 2, 3]\<rparr>" and ?y = "\<lparr>shape = [3], data = [0, 1, 0]\<rparr>"
  have x: "wf_tensor ?x" and y: "wf_tensor ?y" and sh: "shape ?x = shape ?y"
    and ne: "shape ?x \<noteq> []" and pos: "0 < last (shape ?x)"
    by (simp_all add: wf_tensor_def)
  note t = transform_linear [OF x y sh ne pos, where a = 5 and b = 7 and scale = 2
      and k_max = 15 and M = "\<lambda>b. paley_12" and inpl = False]
  have m: "(hadamard_transform_12N, 12) \<in> set variants"
    by (simp add: variants_def)
  have le: "last (shape ?x) \<le> 12 * 2 ^ 15 \<and> \<not> False"
    by simp
  from t m le show ?thesis
    by fast
qed

section \<open>Frame of the fast path\<close>

lemma variants_spec_cuda_store:
  "(f, base) \<in> set variants \<Longrightarrow>
   f (spec_cuda_store k_max M) (st, x) = apply_spec_store k_max M base st x"
  by (auto simp add: variants_def spec_cuda_store_def fun_eq_iff
      hadamard_transform_def hadamard_transform_12N_def hadamard_transform_20N_def
      hadamard_transform_28N_def hadamard_transform_40N_def
      HadamardTransformFn_forward_def HadamardTransform12NFn_forward_def
      HadamardTransform20NFn_forward_def HadamardTransform28NFn_forward_def
      HadamardTransform40NFn_forward_def)

lemma write_rows_other:
  "a \<noteq> storage t \<Longrightarrow> cells (write_rows st t rows) a = cells st a"
  by (simp add: write_rows_def)

lemma next_addr_write_rows: "next_addr (write_rows st t rows) = next_addr st"
  by (simp add: write_rows_def)

lemma apply_spec_store_frame:
  assumes "apply_spec_store k_max M base st x scale False = (res, st')"
  shows "frame st st'"
    and "res = Inr r \<Longrightarrow> storage r = next_addr st \<and> next_addr st' = Suc (next_addr st)"
proof -
  show "frame st st'"
    using assms
    by (auto simp add: apply_spec_store_def Let_def frame_def alloc_def write_rows_def
        split: if_splits sum.splits prod.splits)
  show "storage r = next_addr st \<and> next_addr st' = Suc (next_addr st)" if "res = Inr r"
    using assms that
    by (auto simp add: apply_spec_store_def Let_def alloc_def write_rows_def
        split: if_splits sum.splits prod.splits)
qed

lemma apply_spec_store_succeeds:
  assumes "tshape x \<noteq> []" and "0 < last (tshape x)" and "last (tshape x) \<le> base * 2 ^ k_max"
  shows "\<exists>r st'. apply_spec_store k_max M base st x scale False = (Inr r, st')"
proof -
  obtain p q where "resolve k_max (last (tshape x)) base = Inr (p, q)"
    using resolve_succeeds [OF assms(2,3)] by blast
  then show ?thesis
    using assms(1) by (simp add: apply_spec_store_def Let_def split: prod.splits)
qed

text \<open>
  In place, the storage of the input is overwritten and the result is the input
  handle: the row \<open>[1, 2]\<close> becomes \<open>[3, - 1]\<close>.
\<close>

lemma apply_spec_store_in_place:
  "apply_spec_store 15 M 1 \<lparr>cells = (\<lambda>a. [])(0 := [1, 2]), next_addr = 1\<rparr>
     \<lparr>storage = 0, tshape = [2], row_stride = 2\<rparr> 1 True =
   (Inr \<lparr>storage = 0, tshape = [2], row_stride = 2\<rparr>,
    \<lparr>cells = (\<lambda>a. [])(0 := [3, - 1]), next_addr = 1\<rparr>)"
proof -
  have r: "resolve 15 2 (Suc 0) = Inr (2, 0)"
    using resolve_base_1 [of 2 15] by simp
  have t: "transform M (Suc 0) [1, 2] = [3, - 1]"
    using transform_base_1 [of "[1, 2]" 1 M]
    by (simp add: sylvester_1 mat_vec_def dot_def)
  show ?thesis
    by (simp add: apply_spec_store_def r rows_at_def t write_rows_def write_row_def)
qed

subsection \<open>Out of place, the store model computes the values of the pure model\<close>

lemma write_rows_prefix:
  assumes "length old = length new"
    and "\<And>row. row \<in> set old \<Longrightarrow> length row = m"
    and "\<And>row. row \<in> set new \<Longrightarrow> length row = m"
  shows "j \<le> length new \<Longrightarrow>
         fold (\<lambda>(i, row) cs. write_row cs (i * m) row) (zip [0..<j] (take j new)) (concat old) =
         concat (take j new) @ concat (drop j old)"
proof (induction j)
  case 0
  show ?case by simp
next
  case (Suc j)
  then have j: "j < length new" and j': "j < length old"
    using assms(1) by simp_all
  have IH: "fold (\<lambda>(i, row) cs. write_row cs (i * m) row) (zip [0..<j] (take j new)) (concat old) =
            concat (take j new) @ concat (drop j old)"
    using Suc by simp
  have z: "zip [0..<Suc j] (take (Suc j) new) = zip [0..<j] (take j new) @ [(j, new ! j)]"
    using j by (simp add: take_Suc_conv_app_nth)
  have ln: "length (concat (take j new)) = j * m"
  proof -
    have "length (concat (take j new)) = length (take j new) * m"
      by (rule length_concat_rows) (use assms(3) in \<open>auto dest: in_set_takeD\<close>)
    then show ?thesis
      using j by simp
  qed
  have lo: "length (old ! j) = m" and lnew: "length (new ! j) = m"
    using assms(2,3) j j' by simp_all
  have d: "drop j old = old ! j # drop (Suc j) old"
    using j' by (simp add: Cons_nth_drop_Suc)
  have "write_row (concat (take j new) @ concat (drop j old)) (j * m) (new ! j) =
        concat (take j new) @ new ! j @ concat (drop (Suc j) old)"
    by (simp add: write_row_def ln lnew d lo)
  then show ?case
    using j by (simp add: z IH take_Suc_conv_app_nth)
qed

lemma write_rows_all:
  assumes "length old = length new"
    and "\<And>row. row \<in> set old \<Longrightarrow> length row = m"
    and "\<And>row. row \<in> set new \<Longrightarrow> length row = m"
  shows "fold (\<lambda>(i, row) cs. write_row cs (i * m) row) (zip [0..<length new] new) (concat old) =
         concat new"
  using write_rows_prefix [OF assms, of "length new"] assms(1) by simp

lemma length_transform:
  assumes "0 < base" and "length buf = base * 2 ^ k" and "base = 1 \<or> length (M base) = base"
  shows "length (transform M base buf) = base * 2 ^ k"
proof -
  have "length (transform M base buf) =
        (\<Sum>i\<leftarrow>[0..<2 ^ k]. if base = 1 then 1 else length (M base))"
    by (simp add: transform_blocks [OF assms(1,2)] length_concat comp_def transform_base_def
        mat_vec_def cong: map_cong)
  also have "\<dots> = base * 2 ^ k"
    using assms(3) by (auto simp add: sum_list_triv)
  finally show ?thesis .
qed

lemma apply_spec_store_refines:
  assumes ne: "tshape x \<noteq> []" and pos: "0 < last (tshape x)"
    and bounds: "\<And>i. i < prod_list (butlast (tshape x)) \<Longrightarrow>
                   i * row_stride x + last (tshape x) \<le> length (cells st (storage x))"
    and le: "last (tshape x) \<le> base * 2 ^ k_max"
    and M: "base = 1 \<or> length (M base) = base"
  shows "\<exists>r st'. apply_spec_store k_max M base st x scale False = (Inr r, st') \<and>
           apply_spec k_max M base (read st x) scale False = Inr (read st' r)"
proof -
  let ?L = "last (tshape x)"
  let ?n = "prod_list (butlast (tshape x))"
  let ?R = "rows_at st x"
  obtain p q where res: "resolve k_max ?L base = Inr (p, q)"
    using resolve_succeeds [OF pos le] by blast
  then obtain k where p: "p = base * 2 ^ k" and q: "q = p - ?L" and Lp: "?L \<le> p"
    and base: "0 < base"
    using resolve_Inr by blast
  let ?P = "map (\<lambda>row. row @ replicate q 0) ?R"
  let ?T = "map (\<lambda>row. map (\<lambda>v. v * scale) (transform M base row)) ?P"
  let ?a = "next_addr st"
  let ?st1 = "\<lparr>cells = (cells st)(?a := concat ?P), next_addr = Suc ?a\<rparr>"
  let ?buf = "\<lparr>storage = ?a, tshape = butlast (tshape x) @ [p], row_stride = p\<rparr>"
  let ?st2 = "write_rows ?st1 ?buf ?T"
  let ?r = "\<lparr>storage = ?a, tshape = tshape x, row_stride = p\<rparr>"
  have lenR: "length row = ?L" if "row \<in> set ?R" for row
    using bounds that by (rule rows_at_row_length)
  have nR: "length ?R = ?n"
    by (rule length_rows_at)
  have lenP: "length row = p" if "row \<in> set ?P" for row
    using that lenR Lp q by auto
  have lenT: "length row = p" if rT: "row \<in> set ?T" for row
  proof -
    obtain r0 where r0: "r0 \<in> set ?R"
      and row: "row = map (\<lambda>v. v * scale) (transform M base (r0 @ replicate q 0))"
      using rT by auto
    have "length (r0 @ replicate q 0) = base * 2 ^ k"
      using lenR [OF r0] Lp q p by simp
    then have "length (transform M base (r0 @ replicate q 0)) = base * 2 ^ k"
      using base M by (intro length_transform) simp_all
    then show ?thesis
      by (simp add: row p)
  qed
  have "rows_at ?st1 ?buf = map (take (last (tshape ?buf))) ?P"
  proof (rule rows_at_contiguous [where m = p])
    show "cells ?st1 (storage ?buf) = concat ?P"
      by simp
    show "length row = p" if "row \<in> set ?P" for row
      using that by (rule lenP)
    show "prod_list (butlast (tshape ?buf)) = length ?P"
      by (simp add: nR)
    show "last (tshape ?buf) \<le> p"
      by simp
    show "row_stride ?buf = p"
      by simp
  qed
  also have "last (tshape ?buf) = p"
    by simp
  finally have "rows_at ?st1 ?buf = map (take p) ?P" .
  also have "\<dots> = ?P"
    by (rule map_take_all) (rule lenP)
  finally have bufrows: "rows_at ?st1 ?buf = ?P" .
  have call: "apply_spec_store k_max M base st x scale False = (Inr ?r, ?st2)"
    using ne by (simp add: apply_spec_store_def res Let_def alloc_def bufrows)
  have "fold (\<lambda>(i, row) cs. write_row cs (i * p) row) (zip [0..<length ?T] ?T) (concat ?P) =
        concat ?T"
  proof (rule write_rows_all)
    show "length ?P = length ?T"
      by simp
    show "length row = p" if "row \<in> set ?P" for row
      using that by (rule lenP)
    show "length row = p" if "row \<in> set ?T" for row
      using that by (rule lenT)
  qed
  then have c2: "cells ?st2 (storage ?r) = concat ?T"
    by (simp add: write_rows_def)
  have "rows_at ?st2 ?r = map (take (last (tshape ?r))) ?T"
    using c2
  proof (rule rows_at_contiguous [where m = p])
    show "length row = p" if "row \<in> set ?T" for row
      using that by (rule lenT)
    show "prod_list (butlast (tshape ?r)) = length ?T"
      by (simp add: nR)
    show "last (tshape ?r) \<le> p"
      using Lp by simp
    show "row_stride ?r = p"
      by simp
  qed
  then have rrows: "rows_at ?st2 ?r = map (take ?L) ?T"
    by simp
  have rows: "rows_of ?L (concat ?R) = ?R"
    using pos lenR by (rule rows_of_concat)
  have "apply_spec k_max M base (read st x) scale False =
        Inr \<lparr>shape = tshape x,
             data = concat (map (\<lambda>row. take ?L (map (\<lambda>v. v * scale)
                                    (transform M base (row @ replicate q 0))))
                             (rows_of ?L (concat ?R)))\<rparr>"
    using ne by (simp add: apply_spec_def read_def res Let_def)
  also have "\<dots> = Inr \<lparr>shape = tshape x, data = concat (map (take ?L) ?T)\<rparr>"
    by (simp only: rows) (simp add: comp_def)
  also have "\<lparr>shape = tshape x, data = concat (map (take ?L) ?T)\<rparr> = read ?st2 ?r"
    unfolding read_def rrows by simp
  finally show ?thesis
    using call by blast
qed

text \<open>
  Claim C8.  A call that does not ask for in-place mode, on an allocated tensor with a
  positive last dimension.  \<open>hadamard_transform_ref\<close>, which has no in-place mode,
  returns a tensor; every storage that was allocated before the call has the contents
  it had, so the input reads as before; and the storage of the result was allocated
  during the call, so it is not the storage of the input.  The same holds for each of
  the five public functions over the fast path as the spec describes it, called with
  \<open>inplace = False\<close>: whatever the call returns, every storage allocated before keeps its
  contents and the input reads as before, a result lies in storage allocated during
  the call, and a result is returned when the rows are no longer than the largest
  supported padded size.
\<close>

theorem out_of_place_leaves_input_and_returns_fresh_storage:
  assumes "storage x < next_addr st" and "tshape x \<noteq> []" and "0 < last (tshape x)"
  shows "(\<exists>r st'. hadamard_transform_ref_store (Some scipy_hadamard) st x scale = (Inr r, st') \<and>
            (\<forall>a<next_addr st. cells st' a = cells st a) \<and>
            read st' x = read st x \<and>
            next_addr st \<le> storage r \<and> storage r < next_addr st' \<and>
            storage r \<noteq> storage x) \<and>
         (\<forall>(f, base)\<in>set variants.
            (\<forall>res st'. f (spec_cuda_store k_max M) (st, x) scale False = (res, st') \<longrightarrow>
               (\<forall>a<next_addr st. cells st' a = cells st a) \<and>
               read st' x = read st x \<and>
               (\<forall>r. res = Inr r \<longrightarrow>
                  next_addr st \<le> storage r \<and> storage r < next_addr st' \<and>
                  storage r \<noteq> storage x)) \<and>
            (last (tshape x) \<le> base * 2 ^ k_max \<longrightarrow>
               (\<exists>r st'. f (spec_cuda_store k_max M) (st, x) scale False = (Inr r, st'))))"
proof -
  have ref_part:
    "\<exists>r st'. hadamard_transform_ref_store (Some scipy_hadamard) st x scale = (Inr r, st') \<and>
            (\<forall>a<next_addr st. cells st' a = cells st a) \<and>
            read st' x = read st x \<and>
            next_addr st \<le> storage r \<and> storage r < next_addr st' \<and>
            storage r \<noteq> storage x"
    using assms by (rule ref_store_leaves_input)
  have fast_part:
    "(\<forall>res st'. f (spec_cuda_store k_max M) (st, x) scale False = (res, st') \<longrightarrow>
        (\<forall>a<next_addr st. cells st' a = cells st a) \<and>
        read st' x = read st x \<and>
        (\<forall>r. res = Inr r \<longrightarrow>
           next_addr st \<le> storage r \<and> storage r < next_addr st' \<and>
           storage r \<noteq> storage x)) \<and>
     (last (tshape x) \<le> base * 2 ^ k_max \<longrightarrow>
        (\<exists>r st'. f (spec_cuda_store k_max M) (st, x) scale False = (Inr r, st')))"
    if "(f, base) \<in> set variants" for f base
  proof -
    have f: "f (spec_cuda_store k_max M) (st, x) = apply_spec_store k_max M base st x"
      using that by (rule variants_spec_cuda_store)
    have fr: "(\<forall>a<next_addr st. cells st' a = cells st a) \<and>
              read st' x = read st x \<and>
              (\<forall>r. res = Inr r \<longrightarrow>
                 next_addr st \<le> storage r \<and> storage r < next_addr st' \<and>
                 storage r \<noteq> storage x)"
      if call: "apply_spec_store k_max M base st x scale False = (res, st')" for res st'
    proof -
      have frame: "frame st st'"
        using call by (rule apply_spec_store_frame(1))
      have "\<forall>a<next_addr st. cells st' a = cells st a"
        using frame by (simp add: frame_def)
      moreover have "read st' x = read st x"
        using frame assms(1) by (rule read_frame)
      moreover have "next_addr st \<le> storage r \<and> storage r < next_addr st' \<and>
                     storage r \<noteq> storage x" if "res = Inr r" for r
        using apply_spec_store_frame(2) [OF call that] assms(1) by simp
      ultimately show ?thesis
        by blast
    qed
    have ok: "\<exists>r st'. apply_spec_store k_max M base st x scale False = (Inr r, st')"
      if "last (tshape x) \<le> base * 2 ^ k_max"
      using assms(2,3) that by (rule apply_spec_store_succeeds)
    show ?thesis
      unfolding f using fr ok by blast
  qed
  show ?thesis
    using ref_part fast_part by blast
qed

theorem out_of_place_leaves_input_and_returns_fresh_storage_witness:
  "(\<exists>r st'. hadamard_transform_ref_store (Some scipy_hadamard)
              \<lparr>cells = (\<lambda>a. [])(0 := [1, 2, 3]), next_addr = 1\<rparr>
              \<lparr>storage = 0, tshape = [3], row_stride = 3\<rparr> 2 = (Inr r, st') \<and>
            cells st' 0 = [1, 2, 3] \<and>
            read st' \<lparr>storage = 0, tshape = [3], row_stride = 3\<rparr> =
              \<lparr>shape = [3], data = [1, 2, 3]\<rparr> \<and>
            1 \<le> storage r \<and> storage r \<noteq> 0) \<and>
   (\<exists>r st'. hadamard_transform_12N (spec_cuda_store 15 (\<lambda>b. paley_12))
              (\<lparr>cells = (\<lambda>a. [])(0 := [1, 2, 3]), next_addr = 1\<rparr>,
               \<lparr>storage = 0, tshape = [3], row_stride = 3\<rparr>) 2 False = (Inr r, st') \<and>
            cells st' 0 = [1, 2, 3] \<and>
            read st' \<lparr>storage = 0, tshape = [3], row_stride = 3\<rparr> =
              \<lparr>shape = [3], data = [1, 2, 3]\<rparr> \<and>
            1 \<le> storage r \<and> storage r \<noteq> 0)"
proof -
  let ?st = "\<lparr>cells = (\<lambda>a. [])(0 := [1, 2, 3]), next_addr = 1\<rparr>"
  let ?x = "\<lparr>storage = 0, tshape = [3], row_stride = 3\<rparr>"
  have al: "storage ?x < next_addr ?st" and ne: "tshape ?x \<noteq> []"
    and pos: "0 < last (tshape ?x)"
    by simp_all
  note t = out_of_place_leaves_input_and_returns_fresh_storage
    [OF al ne pos, where scale = 2 and k_max = 15 and M = "\<lambda>b. paley_12"]
  have m: "(hadamard_transform_12N, 12) \<in> set variants"
    by (simp add: variants_def)
  have le: "last (tshape ?x) \<le> 12 * 2 ^ 15"
    by simp
  have rd: "read ?st ?x = \<lparr>shape = [3], data = [1, 2, 3]\<rparr>"
    by (simp add: read_def rows_at_def)
  have c: "cells ?st 0 = [1, 2, 3]" and n: "next_addr ?st = 1"
    by simp_all
  from t have
    "\<exists>r st'. hadamard_transform_ref_store (Some scipy_hadamard) ?st ?x 2 = (Inr r, st') \<and>
            cells st' 0 = [1, 2, 3] \<and> read st' ?x = \<lparr>shape = [3], data = [1, 2, 3]\<rparr> \<and>
            1 \<le> storage r \<and> storage r \<noteq> 0"
    unfolding rd n by (auto simp add: c)
  moreover from t m le have
    "\<exists>r st'. hadamard_transform_12N (spec_cuda_store 15 (\<lambda>b. paley_12)) (?st, ?x) 2 False =
              (Inr r, st') \<and>
            cells st' 0 = [1, 2, 3] \<and> read st' ?x = \<lparr>shape = [3], data = [1, 2, 3]\<rparr> \<and>
            1 \<le> storage r \<and> storage r \<noteq> 0"
    unfolding rd n by (fastforce simp add: c)
  ultimately show ?thesis
    by blast
qed

end
